theory Spec2Isabelle
  imports Main "HOL-Library.Sublist" "HOL-Library.List_Lexorder" "HOL-Library.Char_ord"
    "HOL-Library.Multiset"
begin

text \<open>
  A shallow embedding of the authentication and session core of the MilitaryLife API: the
  failure classifier (\<open>isServiceUnavailableError\<close>), the cookie token extraction and the
  session service of \<open>modules/auth\<close> over its repository functions, and the migration
  runner of \<open>db/run-migrations.ts\<close>. Functions that can throw return a sum, with the
  exception on the left; functions that act on the database take the executor and return
  the executor they leave behind.
\<close>

section \<open>JavaScript strings and values\<close>

text \<open>
  A JavaScript string is represented by the bytes of its UTF-8 encoding, as a \<open>string\<close>.
  The separators the code splits on (\<open>;\<close> and \<open>=\<close>), the percent sign and the letters of
  every literal of the source are ASCII, so splitting, comparing and searching on bytes
  agree with the same operations on code units.
\<close>

datatype error = URIError | DbError string | FsError string

text \<open>
  \<open>String.prototype.toLowerCase\<close>, on the ASCII letters. The bytes of a character outside
  ASCII are left as they are.
\<close>

definition toLowerCase :: "string \<Rightarrow> string" where
  "toLowerCase s =
    map (\<lambda>c. if 65 \<le> (of_char c :: nat) \<and> (of_char c :: nat) \<le> 90
             then char_of ((of_char c :: nat) + 32) else c) s"

text \<open>\<open>s.includes(t)\<close> and \<open>s.endsWith(t)\<close>.\<close>

definition includes_str :: "string \<Rightarrow> string \<Rightarrow> bool" where
  "includes_str s t = sublist t s"

definition endsWith :: "string \<Rightarrow> string \<Rightarrow> bool" where
  "endsWith s t = suffix t s"

text \<open>\<open>s.split(sep)\<close> for a separator of one character, and \<open>parts.join(sep)\<close>.\<close>

fun split_on :: "char \<Rightarrow> string \<Rightarrow> string list" where
  "split_on sep [] = [[]]"
| "split_on sep (c # cs) =
    (if c = sep then [] # split_on sep cs
     else (case split_on sep cs of [] \<Rightarrow> [[c]] | p # ps \<Rightarrow> (c # p) # ps))"

fun join_with :: "string \<Rightarrow> string list \<Rightarrow> string" where
  "join_with sep [] = []"
| "join_with sep [p] = p"
| "join_with sep (p # q # ps) = p @ sep @ join_with sep (q # ps)"

text \<open>
  \<open>String.prototype.trim\<close> strips the white space and line terminator characters of
  ECMAScript from both ends: U+0009 to U+000D, U+0020, U+00A0, U+1680, U+2000 to U+200A,
  U+2028, U+2029, U+202F, U+205F, U+3000 and U+FEFF, here in UTF-8.
\<close>

definition WhiteSpace :: "string list" where
  "WhiteSpace =
    [[CHR 0x09], [CHR 0x0A], [CHR 0x0B], [CHR 0x0C], [CHR 0x0D], [CHR 0x20],
     [CHR 0xC2, CHR 0xA0], [CHR 0xE1, CHR 0x9A, CHR 0x80],
     [CHR 0xE2, CHR 0x80, CHR 0x80], [CHR 0xE2, CHR 0x80, CHR 0x81],
     [CHR 0xE2, CHR 0x80, CHR 0x82], [CHR 0xE2, CHR 0x80, CHR 0x83],
     [CHR 0xE2, CHR 0x80, CHR 0x84], [CHR 0xE2, CHR 0x80, CHR 0x85],
     [CHR 0xE2, CHR 0x80, CHR 0x86], [CHR 0xE2, CHR 0x80, CHR 0x87],
     [CHR 0xE2, CHR 0x80, CHR 0x88], [CHR 0xE2, CHR 0x80, CHR 0x89],
     [CHR 0xE2, CHR 0x80, CHR 0x8A], [CHR 0xE2, CHR 0x80, CHR 0xA8],
     [CHR 0xE2, CHR 0x80, CHR 0xA9], [CHR 0xE2, CHR 0x80, CHR 0xAF],
     [CHR 0xE2, CHR 0x81, CHR 0x9F], [CHR 0xE3, CHR 0x80, CHR 0x80],
     [CHR 0xEF, CHR 0xBB, CHR 0xBF]]"

function trimStart :: "string \<Rightarrow> string" where
  "trimStart s =
    (case find (\<lambda>w. prefix w s) WhiteSpace of
       None \<Rightarrow> s
     | Some w \<Rightarrow> trimStart (drop (length w) s))"
  by pat_completeness auto
termination
proof (relation "measure length")
  fix s w
  assume "find (\<lambda>w. prefix w s) WhiteSpace = Some w"
  then have "w \<in> set WhiteSpace" "prefix w s"
    by (auto simp: find_Some_iff)
  then have "w \<noteq> []" "length w \<le> length s"
    by (auto simp: WhiteSpace_def prefix_length_le)
  then show "(drop (length w) s, s) \<in> measure length"
    by (cases w) auto
qed simp

function trimEnd :: "string \<Rightarrow> string" where
  "trimEnd s =
    (case find (\<lambda>w. suffix w s) WhiteSpace of
       None \<Rightarrow> s
     | Some w \<Rightarrow> trimEnd (take (length s - length w) s))"
  by pat_completeness auto
termination
proof (relation "measure length")
  fix s w
  assume "find (\<lambda>w. suffix w s) WhiteSpace = Some w"
  then have "w \<in> set WhiteSpace" "suffix w s"
    by (auto simp: find_Some_iff)
  then have "w \<noteq> []" "length w \<le> length s"
    by (auto simp: WhiteSpace_def suffix_length_le)
  then show "(take (length s - length w) s, s) \<in> measure length"
    by (cases w) auto
qed simp

declare trimStart.simps [simp del] trimEnd.simps [simp del]

definition trim :: "string \<Rightarrow> string" where
  "trim s = trimEnd (trimStart s)"

text \<open>
  The values an \<open>unknown\<close> can hold: the primitives, and references to objects. An object is
  read at the three properties of \<open>ErrorLike\<close> only; a property that is not there reads
  \<open>undefined\<close>. Objects live in a heap, a list addressed by position, so that two references
  are the same object exactly when their addresses are equal and a chain of causes may
  come back to an object it has left.
\<close>

datatype js_value = JUndefined | JNull | JBool bool | JNum int | JNaN | JStr string | JRef nat

record error_like =
  code :: js_value
  message :: js_value
  cause :: js_value

type_synonym heap = "error_like list"

fun truthy :: "js_value \<Rightarrow> bool" where
  "truthy JUndefined = False"
| "truthy JNull = False"
| "truthy (JBool b) = b"
| "truthy (JNum n) = (n \<noteq> 0)"
| "truthy JNaN = False"
| "truthy (JStr s) = (s \<noteq> [])"
| "truthy (JRef a) = True"

definition absent :: error_like where
  "absent = \<lparr>code = JUndefined, message = JUndefined, cause = JUndefined\<rparr>"

text \<open>Reading \<open>code\<close>, \<open>message\<close> and \<open>cause\<close> off a value; a primitive has none of them.\<close>

fun props :: "heap \<Rightarrow> js_value \<Rightarrow> error_like" where
  "props h (JRef a) = (if a < length h then h ! a else absent)"
| "props h v = absent"

section \<open>Failure classifier\<close>

definition SERVICE_UNAVAILABLE_DB_CODES :: "string list" where
  "SERVICE_UNAVAILABLE_DB_CODES =
    [''08000'', ''08001'', ''08003'', ''08004'', ''08006'', ''08007'', ''08P01'', ''28P01'',
     ''3D000'', ''42P01'', ''53300'', ''57P01'', ''57P02'', ''57P03'', ''ETIMEDOUT'',
     ''ECONNREFUSED'', ''ECONNRESET'', ''EPIPE'', ''ENOTFOUND'', ''EAI_AGAIN'']"

definition MESSAGE_HINTS :: "string list" where
  "MESSAGE_HINTS =
    [''connection terminated unexpectedly'', ''could not connect to server'',
     ''database system is starting up'', ''timeout'', ''connection refused'']"

text \<open>
  The \<open>while\<close> loop of \<open>isServiceUnavailableError\<close>, with the set \<open>seen\<close> in the order of
  insertion (as a JavaScript \<open>Set\<close> keeps it). The loop returns its verdict and the final
  \<open>seen\<close>. It is defined without a termination argument: that it returns is a theorem below.
\<close>

partial_function (option) walk :: "heap \<Rightarrow> js_value list \<Rightarrow> js_value \<Rightarrow> (bool \<times> js_value list) option" where
  "walk h seen current =
    (if truthy current \<and> current \<notin> set seen then
       (let seen' = seen @ [current];
            candidate = props h current;
            code' = (case code candidate of JStr s \<Rightarrow> Some s | _ \<Rightarrow> None);
            message' = (case message candidate of JStr s \<Rightarrow> toLowerCase s | _ \<Rightarrow> [])
        in if (case code' of Some c \<Rightarrow> c \<noteq> [] \<and> c \<in> set SERVICE_UNAVAILABLE_DB_CODES | None \<Rightarrow> False)
           then Some (True, seen')
           else if message' \<noteq> [] \<and> list_ex (\<lambda>hint. includes_str message' hint) MESSAGE_HINTS
           then Some (True, seen')
           else walk h seen' (cause candidate))
     else Some (False, seen))"

declare walk.simps [code]

definition isServiceUnavailableError :: "heap \<Rightarrow> js_value \<Rightarrow> bool option" where
  "isServiceUnavailableError h error = map_option fst (walk h [] error)"

text \<open>
  The words of the specification: the values reachable from the argument through the chain
  of \<open>cause\<close> links, a \<open>code\<close> that is a string of the known set, a message that contains a
  known substring.
\<close>

inductive reachable :: "heap \<Rightarrow> js_value \<Rightarrow> js_value \<Rightarrow> bool" for h e where
  start: "reachable h e e"
| link: "reachable h e v \<Longrightarrow> reachable h e (cause (props h v))"

definition has_known_code :: "error_like \<Rightarrow> bool" where
  "has_known_code x =
    (case code x of JStr s \<Rightarrow> s \<in> set SERVICE_UNAVAILABLE_DB_CODES | _ \<Rightarrow> False)"

definition message_contains_hint :: "error_like \<Rightarrow> bool" where
  "message_contains_hint x =
    (case message x of JStr m \<Rightarrow> list_ex (\<lambda>hint. sublist hint m) MESSAGE_HINTS | _ \<Rightarrow> False)"

definition lowercased_message_contains_hint :: "error_like \<Rightarrow> bool" where
  "lowercased_message_contains_hint x =
    (case message x of
       JStr m \<Rightarrow> list_ex (\<lambda>hint. sublist hint (toLowerCase m)) MESSAGE_HINTS
     | _ \<Rightarrow> False)"

definition claimed_unavailable :: "heap \<Rightarrow> js_value \<Rightarrow> bool" where
  "claimed_unavailable h e =
    (\<exists>v. reachable h e v \<and> (has_known_code (props h v) \<or> message_contains_hint (props h v)))"

definition hit :: "error_like \<Rightarrow> bool" where
  "hit x = (has_known_code x \<or> lowercased_message_contains_hint x)"

text \<open>The objects of a heap, and the measure that bounds the walk.\<close>

definition refs :: "heap \<Rightarrow> js_value set" where
  "refs h = JRef ` {..<length h}"

definition budget :: "heap \<Rightarrow> js_value list \<Rightarrow> js_value \<Rightarrow> nat" where
  "budget h seen current = 2 * card (refs h - set seen) + (if truthy current then 1 else 0)"

text \<open>
  The invariant of the walk from \<open>e\<close>: every value seen so far is no match, and its cause
  is seen too or is the current value.
\<close>

definition closed_under_cause :: "heap \<Rightarrow> js_value \<Rightarrow> js_value list \<Rightarrow> js_value \<Rightarrow> bool" where
  "closed_under_cause h e seen current =
    (reachable h e current \<and> (e \<in> set seen \<or> e = current) \<and>
     (\<forall>s \<in> set seen. \<not> hit (props h s) \<and>
        (cause (props h s) \<in> set seen \<or> cause (props h s) = current)))"

section \<open>Cookie token extraction\<close>

text \<open>
  \<open>decodeURIComponent\<close> is a built-in; it is modelled after the \<open>Decode\<close> operation of
  ECMA-262 with an empty set of preserved characters. An escape \<open>%XX\<close> below 0x80 is one
  character; otherwise it opens a sequence of two to four escaped octets that must be a
  well-formed UTF-8 encoding, and the result holds that character (here: its octets). Every
  other use of \<open>%\<close> throws \<open>URIError\<close>.
\<close>

definition hexval :: "char \<Rightarrow> nat option" where
  "hexval c =
    (let n = (of_char c :: nat) in
     if 48 \<le> n \<and> n \<le> 57 then Some (n - 48)
     else if 65 \<le> n \<and> n \<le> 70 then Some (n - 55)
     else if 97 \<le> n \<and> n \<le> 102 then Some (n - 87)
     else None)"

definition parseHexOctet :: "string \<Rightarrow> nat \<Rightarrow> nat option" where
  "parseHexOctet s p =
    (if p + 2 > length s then None
     else (case (hexval (s ! p), hexval (s ! (p + 1))) of
             (Some x, Some y) \<Rightarrow> Some (16 * x + y)
           | _ \<Rightarrow> None))"

definition leading_ones :: "nat \<Rightarrow> nat" where
  "leading_ones B =
    (if B < 0x80 then 0 else if B < 0xC0 then 1 else if B < 0xE0 then 2
     else if B < 0xF0 then 3 else if B < 0xF8 then 4 else 5)"

fun continuation_octets :: "string \<Rightarrow> nat \<Rightarrow> nat \<Rightarrow> nat list option" where
  "continuation_octets s k 0 = Some []"
| "continuation_octets s k (Suc j) =
    (let k1 = k + 1 in
     if k1 + 3 > length s then None
     else if s ! k1 \<noteq> CHR ''%'' then None
     else (case parseHexOctet s (k1 + 1) of
             None \<Rightarrow> None
           | Some B \<Rightarrow> (case continuation_octets s (k1 + 2) j of
                         None \<Rightarrow> None
                       | Some bs \<Rightarrow> Some (B # bs))))"

definition tail_octet :: "nat \<Rightarrow> bool" where
  "tail_octet b = (0x80 \<le> b \<and> b \<le> 0xBF)"

fun valid_utf8 :: "nat list \<Rightarrow> bool" where
  "valid_utf8 [a, b] = (0xC2 \<le> a \<and> a \<le> 0xDF \<and> tail_octet b)"
| "valid_utf8 [a, b, c] =
    (((a = 0xE0 \<and> 0xA0 \<le> b \<and> b \<le> 0xBF) \<or> (0xE1 \<le> a \<and> a \<le> 0xEC \<and> tail_octet b) \<or>
      (a = 0xED \<and> 0x80 \<le> b \<and> b \<le> 0x9F) \<or> (0xEE \<le> a \<and> a \<le> 0xEF \<and> tail_octet b))
     \<and> tail_octet c)"
| "valid_utf8 [a, b, c, d] =
    (((a = 0xF0 \<and> 0x90 \<le> b \<and> b \<le> 0xBF) \<or> (0xF1 \<le> a \<and> a \<le> 0xF3 \<and> tail_octet b) \<or>
      (a = 0xF4 \<and> 0x80 \<le> b \<and> b \<le> 0x8F))
     \<and> tail_octet c \<and> tail_octet d)"
| "valid_utf8 _ = False"

function decode_from :: "string \<Rightarrow> nat \<Rightarrow> string \<Rightarrow> error + string" where
  "decode_from s k R =
    (if k < length s then
       (if s ! k \<noteq> CHR ''%'' then decode_from s (k + 1) (R @ [s ! k])
        else if k + 3 > length s then Inl URIError
        else (case parseHexOctet s (k + 1) of
                None \<Rightarrow> Inl URIError
              | Some B \<Rightarrow>
                  (let n = leading_ones B in
                   if n = 0 then decode_from s (k + 3) (R @ [char_of B])
                   else if n = 1 \<or> n > 4 then Inl URIError
                   else (case continuation_octets s (k + 2) (n - 1) of
                           None \<Rightarrow> Inl URIError
                         | Some bs \<Rightarrow>
                             if valid_utf8 (B # bs)
                             then decode_from s (k + 3 * n) (R @ map char_of (B # bs))
                             else Inl URIError))))
     else Inr R)"
  by pat_completeness auto
termination
  by (relation "measure (\<lambda>(s, k, R). length s - k)") auto

declare decode_from.simps [simp del]

definition decodeURIComponent :: "string \<Rightarrow> error + string" where
  "decodeURIComponent s = decode_from s 0 []"

text \<open>
  \<open>parseCookieHeader\<close>: the \<open>for\<close> loop over the entries is \<open>scan_entries\<close>. The result is a
  sum, so that an exception of the function would be a value \<open>Inl\<close>; the \<open>try\<close> block turns
  the one exception that can arise into the raw value.
\<close>

fun scan_entries :: "string list \<Rightarrow> string \<Rightarrow> error + string option" where
  "scan_entries [] key = Inr None"
| "scan_entries (entry # entries) key =
    (case split_on CHR ''='' (trim entry) of
       [] \<Rightarrow> scan_entries entries key
     | rawKey # valueParts \<Rightarrow>
         if rawKey \<noteq> key then scan_entries entries key
         else (let v = join_with ''='' valueParts in
               if v = [] then Inr None
               else (case decodeURIComponent v of
                       Inr decoded \<Rightarrow> Inr (Some decoded)
                     | Inl _ \<Rightarrow> Inr (Some v))))"

definition parseCookieHeader :: "string option \<Rightarrow> string \<Rightarrow> error + string option" where
  "parseCookieHeader header key =
    (case header of
       None \<Rightarrow> Inr None
     | Some h \<Rightarrow> if h = [] then Inr None else scan_entries (split_on CHR '';'' h) key)"

text \<open>
  The first entry of a cookie header whose key is \<open>key\<close>, as the value it carries: what the
  specification calls the cookie being present.
\<close>

definition cookie_entry :: "string \<Rightarrow> string \<Rightarrow> string option" where
  "cookie_entry h key =
    map_option (\<lambda>entry. join_with ''='' (tl (split_on CHR ''='' (trim entry))))
      (find (\<lambda>entry. hd (split_on CHR ''='' (trim entry)) = key) (split_on CHR '';'' h))"

section \<open>Session store\<close>

text \<open>
  Timestamps are instants in milliseconds. The tables hold the columns the statements of
  the repository name, with the rows in the order of insertion. A column the \<open>INSERT\<close>
  leaves to its default is \<open>None\<close>. The migrations that create the tables are not among
  the files at hand, so no constraint of theirs is modelled: a statement fails only when the
  connection does.
\<close>

type_synonym timestamp = int

record DbUser =
  u_id :: string
  u_email :: string
  password_hash :: string

record session_row =
  s_id :: string
  s_user_id :: string
  token_hash :: string
  s_expires_at :: timestamp
  last_seen_at :: "timestamp option"

record profile_row =
  p_id :: string
  p_user_id :: string

record DbSessionLookup =
  session_id :: string
  user_id :: string
  email :: string
  expires_at :: timestamp
  profile_id :: "string option"

record tables =
  users :: "DbUser list"
  sessions :: "session_row list"
  profiles :: "profile_row list"

text \<open>
  The executor: the tables, and the failures the connection will meet. Every statement
  sent through \<open>executor.query\<close> takes the next entry of \<open>faults\<close>: \<open>Some e\<close> makes the
  statement throw \<open>e\<close> and leave the tables as they are, \<open>None\<close> (or no entry) lets it run.
\<close>

record executor =
  db :: tables
  faults :: "error option list"

definition query :: "executor \<Rightarrow> (tables \<Rightarrow> 'r \<times> tables) \<Rightarrow> error + ('r \<times> executor)" where
  "query ex stmt =
    (case faults ex of
       Some e # rest \<Rightarrow> Inl e
     | None # rest \<Rightarrow> (case stmt (db ex) of (r, d) \<Rightarrow> Inr (r, \<lparr>db = d, faults = rest\<rparr>))
     | [] \<Rightarrow> (case stmt (db ex) of (r, d) \<Rightarrow> Inr (r, \<lparr>db = d, faults = []\<rparr>)))"

definition execute :: "executor \<Rightarrow> (tables \<Rightarrow> tables) \<Rightarrow> error + executor" where
  "execute ex stmt = map_sum id snd (query ex (\<lambda>d. ((), stmt d)))"

text \<open>The next statement will not meet a failure of the connection.\<close>

definition healthy :: "executor \<Rightarrow> bool" where
  "healthy ex = (case faults ex of Some e # rest \<Rightarrow> False | _ \<Rightarrow> True)"

text \<open>SQL \<open>lower\<close>, on the ASCII letters.\<close>

definition sql_lower :: "string \<Rightarrow> string" where
  "sql_lower s = toLowerCase s"

text \<open>\<open>queryOne\<close> returns \<open>result.rows[0] ?? null\<close>.\<close>

definition first_row :: "'r list \<Rightarrow> 'r option" where
  "first_row rows = (case rows of [] \<Rightarrow> None | r # _ \<Rightarrow> Some r)"

definition findUserByEmail :: "executor \<Rightarrow> string \<Rightarrow> error + (DbUser option \<times> executor)" where
  "findUserByEmail ex addr =
    query ex (\<lambda>d. (first_row (filter (\<lambda>u. sql_lower (u_email u) = sql_lower addr) (users d)), d))"

definition createSession ::
  "executor \<Rightarrow> string \<Rightarrow> string \<Rightarrow> string \<Rightarrow> timestamp \<Rightarrow> error + executor" where
  "createSession ex new_id userId tokenHash expiresAtIso =
    execute ex (\<lambda>d. d\<lparr>sessions := sessions d @
      [\<lparr>s_id = new_id, s_user_id = userId, token_hash = tokenHash,
        s_expires_at = expiresAtIso, last_seen_at = None\<rparr>]\<rparr>)"

text \<open>
  The rows of the \<open>SELECT\<close> of \<open>findSessionByTokenHash\<close>: sessions joined with their users,
  left-joined with the profiles of the user, where the fingerprint matches and the session
  expires after \<open>now\<close>.
\<close>

definition profile_refs :: "tables \<Rightarrow> DbUser \<Rightarrow> string option list" where
  "profile_refs d u =
    (case filter (\<lambda>p. p_user_id p = u_id u) (profiles d) of
       [] \<Rightarrow> [None]
     | ps \<Rightarrow> map (\<lambda>p. Some (p_id p)) ps)"

definition session_rows :: "tables \<Rightarrow> string \<Rightarrow> timestamp \<Rightarrow> DbSessionLookup list" where
  "session_rows d tokenHash now =
    concat (map (\<lambda>s.
      concat (map (\<lambda>u.
        map (\<lambda>p. \<lparr>session_id = s_id s, user_id = s_user_id s, email = u_email u,
                  expires_at = s_expires_at s, profile_id = p\<rparr>) (profile_refs d u))
        (filter (\<lambda>u. u_id u = s_user_id s) (users d))))
      (filter (\<lambda>s. token_hash s = tokenHash \<and> s_expires_at s > now) (sessions d)))"

definition findSessionByTokenHash ::
  "executor \<Rightarrow> string \<Rightarrow> timestamp \<Rightarrow> error + (DbSessionLookup option \<times> executor)" where
  "findSessionByTokenHash ex tokenHash now =
    query ex (\<lambda>d. (first_row (session_rows d tokenHash now), d))"

definition touchSession :: "executor \<Rightarrow> string \<Rightarrow> timestamp \<Rightarrow> error + executor" where
  "touchSession ex sessionId now =
    execute ex (\<lambda>d. d\<lparr>sessions :=
      map (\<lambda>s. if s_id s = sessionId then s\<lparr>last_seen_at := Some now\<rparr> else s) (sessions d)\<rparr>)"

definition deleteSessionByTokenHash :: "executor \<Rightarrow> string \<Rightarrow> error + executor" where
  "deleteSessionByTokenHash ex tokenHash =
    execute ex (\<lambda>d. d\<lparr>sessions := filter (\<lambda>s. token_hash s \<noteq> tokenHash) (sessions d)\<rparr>)"

definition deleteSessionsByUserId :: "executor \<Rightarrow> string \<Rightarrow> error + executor" where
  "deleteSessionsByUserId ex userId =
    execute ex (\<lambda>d. d\<lparr>sessions := filter (\<lambda>s. s_user_id s \<noteq> userId) (sessions d)\<rparr>)"

section \<open>Session service\<close>

text \<open>
  What the service takes from outside the files at hand: the fingerprint and the password
  check of \<open>utils/crypto\<close>, and the date formatting of the platform.
\<close>

record deps =
  sha256 :: "string \<Rightarrow> string"
  verifyPassword :: "string \<Rightarrow> string \<Rightarrow> bool"
  toUTCString :: "timestamp \<Rightarrow> string"

record env =
  SESSION_DAYS :: int
  NODE_ENV :: string

text \<open>
  What one call draws from its surroundings: the token and the identifier it generates, the
  clock of the process and the clock of the database.
\<close>

record ambient =
  generateToken :: string
  generateUuid :: string
  js_now :: timestamp
  db_now :: timestamp

record SessionPrincipal =
  sid :: string
  sessionId :: string
  userId :: string
  principal_email :: string
  profileId :: "string option"
  expiresAt :: timestamp

datatype header_value = HAbsent | HString string | HList "string list"

record request =
  cookies :: "(string \<times> string) list option"
  headers_cookie :: header_value
  auth :: "SessionPrincipal option"

record cookie_options =
  httpOnly :: bool
  sameSite :: string
  secure :: bool
  path :: string
  expires :: "timestamp option"

datatype cookie_call = SetCookie string string cookie_options | ClearCookie string cookie_options

datatype body = ErrorBody string | UserBody string string "string option"

text \<open>
  A reply: whether a cookie plugin has decorated it, the calls made to the plugin, the headers
  set, the status code, and what was sent (\<open>None\<close>: nothing yet; \<open>Some None\<close>: sent with no
  body).
\<close>

record reply =
  has_setCookie :: bool
  has_clearCookie :: bool
  cookie_calls :: "cookie_call list"
  headers :: "(string \<times> string) list"
  statusCode :: nat
  sent :: "body option option"

definition getCookieOptions :: "bool \<Rightarrow> timestamp \<Rightarrow> cookie_options" where
  "getCookieOptions isProd expiry =
    \<lparr>httpOnly = True, sameSite = ''lax'', secure = isProd, path = ''/'', expires = Some expiry\<rparr>"

text \<open>\<open>request.cookies?.sid\<close>: \<open>None\<close> when no plugin has parsed the cookies, or none is named \<open>sid\<close>.\<close>

definition decorated_sid :: "request \<Rightarrow> string option" where
  "decorated_sid rq = (case cookies rq of None \<Rightarrow> None | Some cs \<Rightarrow> map_of cs ''sid'')"

definition getSidFromRequest :: "request \<Rightarrow> error + string option" where
  "getSidFromRequest rq =
    (let decorated = decorated_sid rq in
     if decorated \<noteq> None \<and> decorated \<noteq> Some [] then Inr decorated
     else parseCookieHeader (case headers_cookie rq of HString h \<Rightarrow> Some h | _ \<Rightarrow> None) ''sid'')"

text \<open>\<open>encodeURIComponent\<close>: every byte but the unreserved characters becomes \<open>%XX\<close>.\<close>

definition uriUnreserved :: "char \<Rightarrow> bool" where
  "uriUnreserved c =
    (c \<in> set ''ABCDEFGHIJKLMNOPQRSTUVWXYZabcdefghijklmnopqrstuvwxyz0123456789-_.!~*()''
     \<or> c = CHR 0x27)"

definition hexdigit :: "nat \<Rightarrow> char" where
  "hexdigit n = ''0123456789ABCDEF'' ! n"

definition encodeURIComponent :: "string \<Rightarrow> string" where
  "encodeURIComponent s =
    concat (map (\<lambda>c. if uriUnreserved c then [c]
                     else [CHR ''%'', hexdigit ((of_char c :: nat) div 16),
                           hexdigit ((of_char c :: nat) mod 16)]) s)"

definition setSessionCookie :: "deps \<Rightarrow> reply \<Rightarrow> string \<Rightarrow> bool \<Rightarrow> timestamp \<Rightarrow> reply" where
  "setSessionCookie dp rp token isProd expiry =
    (if has_setCookie rp
     then rp\<lparr>cookie_calls := cookie_calls rp @ [SetCookie ''sid'' token (getCookieOptions isProd expiry)]\<rparr>
     else rp\<lparr>headers := headers rp @
       [(''set-cookie'', ''sid='' @ encodeURIComponent token @ ''; Path=/; HttpOnly; SameSite=Lax''
           @ (if isProd then ''; Secure'' else []) @ ''; Expires='' @ toUTCString dp expiry)]\<rparr>)"

definition clearSessionCookie :: "reply \<Rightarrow> bool \<Rightarrow> reply" where
  "clearSessionCookie rp isProd =
    (if has_clearCookie rp
     then rp\<lparr>cookie_calls := cookie_calls rp @
       [ClearCookie ''sid'' \<lparr>httpOnly = True, sameSite = ''lax'', secure = isProd, path = ''/'',
                            expires = None\<rparr>]\<rparr>
     else rp\<lparr>headers := headers rp @
       [(''set-cookie'', ''sid=; Path=/; HttpOnly; SameSite=Lax''
           @ (if isProd then ''; Secure'' else []) @ ''; Expires=Thu, 01 Jan 1970 00:00:00 GMT'')]\<rparr>)"

text \<open>\<open>setDate(getDate() + days)\<close>, for a process clock in UTC: a day is 86400000 ms.\<close>

definition buildSessionExpiry :: "timestamp \<Rightarrow> int \<Rightarrow> timestamp" where
  "buildSessionExpiry now days = now + days * 86400000"

text \<open>\<open>reply.code(n).send(b)\<close>.\<close>

definition code_send :: "reply \<Rightarrow> nat \<Rightarrow> body option \<Rightarrow> reply" where
  "code_send rp n b = rp\<lparr>statusCode := n, sent := Some b\<rparr>"

definition attachAuth :: "deps \<Rightarrow> timestamp \<Rightarrow> executor \<Rightarrow> request \<Rightarrow> error + (request \<times> executor)" where
  "attachAuth dp now ex rq =
    (case getSidFromRequest rq of
       Inl e \<Rightarrow> Inl e
     | Inr None \<Rightarrow> Inr (rq\<lparr>auth := None\<rparr>, ex)
     | Inr (Some token) \<Rightarrow>
         (case findSessionByTokenHash ex (sha256 dp token) now of
            Inl e \<Rightarrow> Inl e
          | Inr (None, ex1) \<Rightarrow> Inr (rq\<lparr>auth := None\<rparr>, ex1)
          | Inr (Some session, ex1) \<Rightarrow>
              (case touchSession ex1 (session_id session) now of
                 Inl e \<Rightarrow> Inl e
               | Inr ex2 \<Rightarrow>
                   Inr (rq\<lparr>auth := Some \<lparr>sid = token, sessionId = session_id session,
                          userId = user_id session, principal_email = email session,
                          profileId = profile_id session, expiresAt = expires_at session\<rparr>\<rparr>, ex2))))"

definition loginUser ::
  "deps \<Rightarrow> env \<Rightarrow> ambient \<Rightarrow> executor \<Rightarrow> reply \<Rightarrow> string \<Rightarrow> string \<Rightarrow> error + (reply \<times> executor)" where
  "loginUser dp ev amb ex rp addr password =
    (case findUserByEmail ex addr of
       Inl e \<Rightarrow> Inl e
     | Inr (None, ex1) \<Rightarrow> Inr (code_send rp 401 (Some (ErrorBody ''Invalid credentials'')), ex1)
     | Inr (Some user, ex1) \<Rightarrow>
         if \<not> verifyPassword dp password (password_hash user)
         then Inr (code_send rp 401 (Some (ErrorBody ''Invalid credentials'')), ex1)
         else (case deleteSessionsByUserId ex1 (u_id user) of
                 Inl e \<Rightarrow> Inl e
               | Inr ex2 \<Rightarrow>
                   (let token = generateToken amb;
                        tokenHash = sha256 dp token;
                        expiry = buildSessionExpiry (js_now amb) (SESSION_DAYS ev)
                    in case createSession ex2 (generateUuid amb) (u_id user) tokenHash expiry of
                         Inl e \<Rightarrow> Inl e
                       | Inr ex3 \<Rightarrow>
                           (case findSessionByTokenHash ex3 tokenHash (db_now amb) of
                              Inl e \<Rightarrow> Inl e
                            | Inr (profile, ex4) \<Rightarrow>
                                Inr (code_send
                                       (setSessionCookie dp rp token (NODE_ENV ev = ''production'') expiry)
                                       200
                                       (Some (UserBody (u_id user) (u_email user)
                                          (case profile of None \<Rightarrow> None | Some p \<Rightarrow> profile_id p))),
                                     ex4)))))"

text \<open>The row a successful login inserts for the user \<open>uid\<close>.\<close>

definition issued_session :: "deps \<Rightarrow> env \<Rightarrow> ambient \<Rightarrow> string \<Rightarrow> session_row" where
  "issued_session dp ev amb uid =
    \<lparr>s_id = generateUuid amb, s_user_id = uid, token_hash = sha256 dp (generateToken amb),
     s_expires_at = buildSessionExpiry (js_now amb) (SESSION_DAYS ev), last_seen_at = None\<rparr>"

definition logoutUser :: "deps \<Rightarrow> env \<Rightarrow> executor \<Rightarrow> request \<Rightarrow> reply \<Rightarrow> error + (reply \<times> executor)" where
  "logoutUser dp ev ex rq rp =
    (case getSidFromRequest rq of
       Inl e \<Rightarrow> Inl e
     | Inr maybe \<Rightarrow>
         (case (case maybe of
                  None \<Rightarrow> Inr ex
                | Some token \<Rightarrow> deleteSessionByTokenHash ex (sha256 dp token)) of
            Inl e \<Rightarrow> Inl e
          | Inr ex1 \<Rightarrow>
              Inr (code_send (clearSessionCookie rp (NODE_ENV ev = ''production'')) 204 None, ex1)))"

section \<open>Migration runner\<close>

text \<open>
  The client of the runner: the rows of \<open>schema_migrations\<close> (\<open>None\<close> while the table does
  not exist), the rest of the database, which the batches act on, and the names of the files
  whose batch has run, in order. The directory is a list of file names with their contents.
  \<open>localeCompare\<close> and what a batch does to the database are parameters.
\<close>

record 's client =
  ledger :: "string list option"
  schema :: 's
  applied :: "string list"

text \<open>\<open>Array.prototype.sort\<close> with a comparator: a stable sort.\<close>

fun insert_by :: "('a \<Rightarrow> 'a \<Rightarrow> int) \<Rightarrow> 'a \<Rightarrow> 'a list \<Rightarrow> 'a list" where
  "insert_by cmp x [] = [x]"
| "insert_by cmp x (y # ys) = (if cmp x y \<le> 0 then x # y # ys else y # insert_by cmp x ys)"

definition sort_by :: "('a \<Rightarrow> 'a \<Rightarrow> int) \<Rightarrow> 'a list \<Rightarrow> 'a list" where
  "sort_by cmp xs = foldr (insert_by cmp) xs []"

definition migration_files :: "(string \<Rightarrow> string \<Rightarrow> int) \<Rightarrow> (string \<times> string) list \<Rightarrow> string list" where
  "migration_files localeCompare dir =
    sort_by localeCompare (filter (\<lambda>name. endsWith name ''.sql'') (map fst dir))"

text \<open>
  \<open>filename TEXT PRIMARY KEY\<close>: a second row of the same name is a unique violation
  (SQLSTATE 23505).
\<close>

definition insert_ledger :: "string list \<Rightarrow> string \<Rightarrow> error + string list" where
  "insert_ledger rows filename =
    (if filename \<in> set rows then Inl (DbError ''23505'') else Inr (rows @ [filename]))"

text \<open>
  The \<open>for\<close> loop over the sorted files: the \<open>SELECT\<close> on the ledger (which fails with
  SQLSTATE 42P01 on a table that is not there), \<open>readFile\<close>, the batch, the \<open>INSERT\<close>. The
  first exception ends the run.
\<close>

fun apply_files ::
  "(string \<Rightarrow> 's \<Rightarrow> error + 's) \<Rightarrow> (string \<times> string) list \<Rightarrow> string list \<Rightarrow> 's client
    \<Rightarrow> error + 's client" where
  "apply_files run dir [] c = Inr c"
| "apply_files run dir (filename # files) c =
    (case ledger c of
       None \<Rightarrow> Inl (DbError ''42P01'')
     | Some rows \<Rightarrow>
         if filename \<in> set rows then apply_files run dir files c
         else (case map_of dir filename of
                 None \<Rightarrow> Inl (FsError ''ENOENT'')
               | Some sql \<Rightarrow>
                   (case run sql (schema c) of
                      Inl e \<Rightarrow> Inl e
                    | Inr s \<Rightarrow>
                        (case insert_ledger rows filename of
                           Inl e \<Rightarrow> Inl e
                         | Inr rows' \<Rightarrow>
                             apply_files run dir files
                               \<lparr>ledger = Some rows', schema = s,
                                applied = applied c @ [filename]\<rparr>))))"

text \<open>
  \<open>runMigrations\<close>: \<open>CREATE TABLE IF NOT EXISTS\<close> gives an empty ledger when there is
  none, then the files are listed, filtered, sorted and applied.
\<close>

definition runMigrations ::
  "(string \<Rightarrow> string \<Rightarrow> int) \<Rightarrow> (string \<Rightarrow> 's \<Rightarrow> error + 's) \<Rightarrow> (string \<times> string) list
    \<Rightarrow> 's client \<Rightarrow> error + 's client" where
  "runMigrations localeCompare run dir c =
    apply_files run dir (migration_files localeCompare dir)
      (c\<lparr>ledger := Some (case ledger c of None \<Rightarrow> [] | Some rows \<Rightarrow> rows)\<rparr>)"

definition ledger_rows :: "'s client \<Rightarrow> string list" where
  "ledger_rows c = (case ledger c of None \<Rightarrow> [] | Some rows \<Rightarrow> rows)"

text \<open>A comparator \<open>sort\<close> can rely on: total and transitive.\<close>

definition consistent_comparator :: "('a \<Rightarrow> 'a \<Rightarrow> int) \<Rightarrow> bool" where
  "consistent_comparator cmp =
    ((\<forall>a b. cmp a b \<le> 0 \<or> cmp b a \<le> 0) \<and>
     (\<forall>a b c. cmp a b \<le> 0 \<longrightarrow> cmp b c \<le> 0 \<longrightarrow> cmp a c \<le> 0))"

definition ordered_by :: "('a \<Rightarrow> 'a \<Rightarrow> int) \<Rightarrow> 'a list \<Rightarrow> bool" where
  "ordered_by cmp xs = sorted_wrt (\<lambda>a b. cmp a b \<le> 0) xs"

text \<open>Comparison of strings by their characters, first difference first.\<close>

definition compare_lex :: "string \<Rightarrow> string \<Rightarrow> int" where
  "compare_lex a b = (if a < b then - 1 else if a = b then 0 else 1)"

text \<open>
  \<open>String.prototype.localeCompare\<close> is a built-in: with the default options it compares by
  the collation of the locale. \<open>localeCompare_en\<close> is that comparison for a locale that keeps
  the root collation of CLDR, as \<open>en\<close> does, on ASCII: the primary weights of the characters
  are compared first, letters without regard to case, with white space before punctuation
  and symbols, these before the digits and the digits before the letters, in the order of
  \<open>collation_order\<close>; strings of equal primary weights are ordered by case, a lower-case
  letter before its capital. The control characters other than white space have no weight.
  The collation of characters outside ASCII is not modelled: their bytes are ranked after
  the letters.
\<close>

fun index_of :: "'a list \<Rightarrow> 'a \<Rightarrow> nat" where
  "index_of [] x = 0"
| "index_of (y # ys) x = (if x = y then 0 else Suc (index_of ys x))"

definition collation_order :: string where
  "collation_order =
    [CHR 0x09, CHR 0x0A, CHR 0x0B, CHR 0x0C, CHR 0x0D] @ '' _-,;:!?.'' @ [CHR 0x27, CHR 0x22]
    @ ''()[]{}@*/'' @ [CHR 0x5C] @ ''&#%'' @ [CHR 0x60]
    @ ''^+<=>|~$0123456789abcdefghijklmnopqrstuvwxyz''"

definition ignorable :: "char \<Rightarrow> bool" where
  "ignorable c =
    ((of_char c :: nat) \<le> 8 \<or> (14 \<le> (of_char c :: nat) \<and> (of_char c :: nat) \<le> 31)
     \<or> (of_char c :: nat) = 127)"

definition primary_weights :: "string \<Rightarrow> nat list" where
  "primary_weights s =
    map (\<lambda>c. if c \<in> set collation_order then index_of collation_order c
             else length collation_order + of_char c)
      (toLowerCase (filter (\<lambda>c. \<not> ignorable c) s))"

definition tertiary_weights :: "string \<Rightarrow> nat list" where
  "tertiary_weights s =
    map (\<lambda>c. if 65 \<le> (of_char c :: nat) \<and> (of_char c :: nat) \<le> 90 then 1 else 0)
      (filter (\<lambda>c. \<not> ignorable c) s)"

definition localeCompare_en :: "string \<Rightarrow> string \<Rightarrow> int" where
  "localeCompare_en a b =
    (if primary_weights a < primary_weights b then - 1
     else if primary_weights b < primary_weights a then 1
     else if tertiary_weights a < tertiary_weights b then - 1
     else if tertiary_weights b < tertiary_weights a then 1
     else 0)"

text \<open>The batches of a list of files, run one after the other; the first failure ends the run.\<close>

fun run_batches :: "(string \<Rightarrow> 's \<Rightarrow> error + 's) \<Rightarrow> string list \<Rightarrow> 's \<Rightarrow> error + 's" where
  "run_batches run [] s = Inr s"
| "run_batches run (sql # sqls) s =
    (case run sql s of Inl e \<Rightarrow> Inl e | Inr s' \<Rightarrow> run_batches run sqls s')"

section \<open>A scenario\<close>

text \<open>
  Concrete data on which the properties below are evaluated: two users, one live session
  each, a stand-in for the fingerprint and for the password check, and two logins of the
  first user.
\<close>

definition scenario_deps :: deps where
  "scenario_deps =
    \<lparr>sha256 = (\<lambda>s. ''sha:'' @ s), verifyPassword = (\<lambda>p h. h = ''argon:'' @ p),
     toUTCString = (\<lambda>t. ''Thu, 08 Jan 1970 00:00:01 GMT'')\<rparr>"

definition scenario_env :: env where
  "scenario_env = \<lparr>SESSION_DAYS = 7, NODE_ENV = ''production''\<rparr>"

definition scenario_tables :: tables where
  "scenario_tables =
    \<lparr>users = [\<lparr>u_id = ''u1'', u_email = ''a@x.com'', password_hash = ''argon:p1''\<rparr>,
              \<lparr>u_id = ''u2'', u_email = ''b@x.com'', password_hash = ''argon:p2''\<rparr>],
     sessions = [\<lparr>s_id = ''s0'', s_user_id = ''u1'', token_hash = ''sha:t0'',
                  s_expires_at = 500000, last_seen_at = None\<rparr>,
                 \<lparr>s_id = ''s9'', s_user_id = ''u2'', token_hash = ''sha:t9'',
                  s_expires_at = 500000, last_seen_at = None\<rparr>],
     profiles = [\<lparr>p_id = ''p1'', p_user_id = ''u1''\<rparr>]\<rparr>"

definition scenario_start :: executor where
  "scenario_start = \<lparr>db = scenario_tables, faults = []\<rparr>"

definition scenario_touch_fails :: executor where
  "scenario_touch_fails = \<lparr>db = scenario_tables, faults = [None, Some (DbError ''57P01'')]\<rparr>"

definition scenario_down :: executor where
  "scenario_down = \<lparr>db = scenario_tables, faults = [Some (DbError ''ECONNREFUSED'')]\<rparr>"

definition scenario_reply :: reply where
  "scenario_reply =
    \<lparr>has_setCookie = True, has_clearCookie = True, cookie_calls = [], headers = [],
     statusCode = 200, sent = None\<rparr>"

definition scenario_request :: "string \<Rightarrow> request" where
  "scenario_request h = \<lparr>cookies = None, headers_cookie = HString h, auth = None\<rparr>"

definition first_login :: ambient where
  "first_login = \<lparr>generateToken = ''t1'', generateUuid = ''s1'', js_now = 1000, db_now = 1001\<rparr>"

definition second_login :: ambient where
  "second_login = \<lparr>generateToken = ''t2'', generateUuid = ''s2'', js_now = 2000, db_now = 2001\<rparr>"

definition scenario_after_first :: executor where
  "scenario_after_first =
    \<lparr>db = scenario_tables\<lparr>sessions :=
       [\<lparr>s_id = ''s9'', s_user_id = ''u2'', token_hash = ''sha:t9'',
         s_expires_at = 500000, last_seen_at = None\<rparr>,
        \<lparr>s_id = ''s1'', s_user_id = ''u1'', token_hash = ''sha:t1'',
         s_expires_at = 604801000, last_seen_at = None\<rparr>]\<rparr>,
     faults = []\<rparr>"

definition scenario_after_second :: executor where
  "scenario_after_second =
    \<lparr>db = scenario_tables\<lparr>sessions :=
       [\<lparr>s_id = ''s9'', s_user_id = ''u2'', token_hash = ''sha:t9'',
         s_expires_at = 500000, last_seen_at = None\<rparr>,
        \<lparr>s_id = ''s2'', s_user_id = ''u1'', token_hash = ''sha:t2'',
         s_expires_at = 604802000, last_seen_at = None\<rparr>]\<rparr>,
     faults = []\<rparr>"

definition scenario_login_reply :: "string \<Rightarrow> timestamp \<Rightarrow> reply" where
  "scenario_login_reply token expiry =
    scenario_reply
      \<lparr>cookie_calls := [SetCookie ''sid'' token
          \<lparr>httpOnly = True, sameSite = ''lax'', secure = True, path = ''/'', expires = Some expiry\<rparr>],
       statusCode := 200,
       sent := Some (Some (UserBody ''u1'' ''a@x.com'' (Some ''p1'')))\<rparr>"

definition scenario_dir :: "(string \<times> string) list" where
  "scenario_dir =
    [(''002_b.sql'', ''CREATE TABLE b ()''), (''notes.txt'', ''not a migration''),
     (''001_a.sql'', ''CREATE TABLE a ()'')]"

definition scenario_run :: "string \<Rightarrow> string list \<Rightarrow> error + string list" where
  "scenario_run sql done = Inr (done @ [sql])"

definition scenario_mixed :: "(string \<times> string) list" where
  "scenario_mixed =
    [(''B.sql'', ''CREATE TABLE b2 ()''), (''0011_c.sql'', ''CREATE TABLE c ()''),
     (''README.md'', ''not a migration''), (''a.sql'', ''CREATE TABLE a2 ()''),
     (''001_a.sql'', ''CREATE TABLE a ()'')]"

definition scenario_mixed_migrated :: "string list client" where
  "scenario_mixed_migrated =
    \<lparr>ledger = Some [''001_a.sql'', ''0011_c.sql'', ''a.sql'', ''B.sql''],
     schema = [''CREATE TABLE a ()'', ''CREATE TABLE c ()'', ''CREATE TABLE a2 ()'',
               ''CREATE TABLE b2 ()''],
     applied = [''001_a.sql'', ''0011_c.sql'', ''a.sql'', ''B.sql'']\<rparr>"

definition scenario_fresh :: "string list client" where
  "scenario_fresh = \<lparr>ledger = None, schema = [], applied = []\<rparr>"

definition scenario_migrated :: "string list client" where
  "scenario_migrated =
    \<lparr>ledger = Some [''001_a.sql'', ''002_b.sql''],
     schema = [''CREATE TABLE a ()'', ''CREATE TABLE b ()''],
     applied = [''001_a.sql'', ''002_b.sql'']\<rparr>"

section \<open>Properties of the failure classifier\<close>

lemma empty_not_code: "[] \<notin> set SERVICE_UNAVAILABLE_DB_CODES"
  by (simp add: SERVICE_UNAVAILABLE_DB_CODES_def)

lemma empty_no_hint: "\<not> list_ex (\<lambda>hint. sublist hint []) MESSAGE_HINTS"
  by (simp add: MESSAGE_HINTS_def)

lemma walk_step:
  "walk h seen current =
    (if truthy current \<and> current \<notin> set seen then
       (if hit (props h current) then Some (True, seen @ [current])
        else walk h (seen @ [current]) (cause (props h current)))
     else Some (False, seen))"
proof -
  have c: "(case (case code x of JStr s \<Rightarrow> Some s | _ \<Rightarrow> None) of
              Some c \<Rightarrow> c \<noteq> [] \<and> c \<in> set SERVICE_UNAVAILABLE_DB_CODES | None \<Rightarrow> False)
           = has_known_code x" for x
    using empty_not_code by (auto simp: has_known_code_def split: js_value.splits)
  have m: "((case message x of JStr s \<Rightarrow> toLowerCase s | _ \<Rightarrow> []) \<noteq> [] \<and>
            list_ex (includes_str (case message x of JStr s \<Rightarrow> toLowerCase s | _ \<Rightarrow> []))
              MESSAGE_HINTS) = lowercased_message_contains_hint x" for x
    using empty_no_hint
    by (auto simp: lowercased_message_contains_hint_def includes_str_def list_ex_iff
             split: js_value.splits)
  show ?thesis
    by (subst walk.simps) (simp add: Let_def c m hit_def)
qed

lemma absent_no_hit: "\<not> hit absent"
  by (simp add: hit_def absent_def has_known_code_def lowercased_message_contains_hint_def)

lemma finite_refs: "finite (refs h)"
  by (simp add: refs_def)

lemma card_refs: "card (refs h) = length h"
  by (simp add: refs_def card_image inj_on_def)

lemma fields_outside: "v \<notin> refs h \<Longrightarrow> props h v = absent"
  by (cases v) (auto simp: refs_def)

lemma falsy_outside: "\<not> truthy v \<Longrightarrow> v \<notin> refs h"
  by (cases v) (auto simp: refs_def)

lemma budget_step:
  assumes "truthy current" "current \<notin> set seen"
  shows "budget h (seen @ [current]) (cause (props h current)) < budget h seen current"
proof (cases "current \<in> refs h")
  case True
  have "refs h - set (seen @ [current]) = (refs h - set seen) - {current}"
    by auto
  moreover have "current \<in> refs h - set seen"
    using True assms by simp
  ultimately have "card (refs h - set (seen @ [current])) < card (refs h - set seen)"
    using finite_refs [of h] by (metis card_Diff1_less finite_Diff)
  then show ?thesis
    using assms by (simp add: budget_def)
next
  case False
  then have "cause (props h current) = JUndefined"
    by (simp add: fields_outside absent_def)
  moreover have "refs h - set (seen @ [current]) = refs h - set seen"
    using False by auto
  ultimately show ?thesis
    using assms by (simp add: budget_def)
qed


lemma walk_stop: "\<not> (truthy current \<and> current \<notin> set seen) \<Longrightarrow> walk h seen current = Some (False, seen)"
  by (subst walk_step) auto

lemma walk_hit:
  "truthy current \<Longrightarrow> current \<notin> set seen \<Longrightarrow> hit (props h current)
    \<Longrightarrow> walk h seen current = Some (True, seen @ [current])"
  by (subst walk_step) simp

lemma walk_next:
  "truthy current \<Longrightarrow> current \<notin> set seen \<Longrightarrow> \<not> hit (props h current)
    \<Longrightarrow> walk h seen current = walk h (seen @ [current]) (cause (props h current))"
  by (subst walk_step) simp

lemma walk_visits_once:
  assumes "distinct seen" "set seen \<subseteq> refs h"
  shows "\<exists>b visited. walk h seen current = Some (b, visited) \<and> distinct visited
           \<and> length visited \<le> Suc (length h)"
  using assms
proof (induction "budget h seen current" arbitrary: seen current rule: less_induct)
  case less
  have len: "length seen \<le> length h"
  proof -
    have "card (set seen) \<le> card (refs h)"
      using less.prems finite_refs by (simp add: card_mono)
    then show ?thesis
      using less.prems by (simp add: distinct_card card_refs)
  qed
  show ?case
  proof (cases "truthy current \<and> current \<notin> set seen")
    case False
    then have "walk h seen current = Some (False, seen)"
      by (rule walk_stop)
    then show ?thesis
      using less.prems len by auto
  next
    case live: True
    show ?thesis
    proof (cases "hit (props h current)")
      case True
      with live have "walk h seen current = Some (True, seen @ [current])"
        by (simp add: walk_hit)
      then show ?thesis
        using less.prems len live by auto
    next
      case nohit: False
      with live have nxt: "walk h seen current = walk h (seen @ [current]) (cause (props h current))"
        by (simp add: walk_next)
      show ?thesis
      proof (cases "current \<in> refs h")
        case True
        have "budget h (seen @ [current]) (cause (props h current)) < budget h seen current"
          using live by (simp add: budget_step)
        moreover have "distinct (seen @ [current])" "set (seen @ [current]) \<subseteq> refs h"
          using live True less.prems by auto
        ultimately have "\<exists>b visited. walk h (seen @ [current]) (cause (props h current)) = Some (b, visited)
            \<and> distinct visited \<and> length visited \<le> Suc (length h)"
          by (rule less.hyps)
        then show ?thesis
          by (simp only: nxt)
      next
        case False
        then have "cause (props h current) = JUndefined"
          by (simp add: fields_outside absent_def)
        then have "walk h seen current = Some (False, seen @ [current])"
          using nxt by (simp add: walk_stop)
        then show ?thesis
          using live less.prems len by auto
      qed
    qed
  qed
qed

lemma closed_start: "closed_under_cause h e [] e"
  by (simp add: closed_under_cause_def reachable.start)

lemma closed_step:
  assumes "closed_under_cause h e seen current" "\<not> hit (props h current)"
  shows "closed_under_cause h e (seen @ [current]) (cause (props h current))"
  using assms unfolding closed_under_cause_def
  by (auto intro: reachable.link)

lemma closed_exit:
  assumes inv: "closed_under_cause h e seen current"
    and stop: "\<not> (truthy current \<and> current \<notin> set seen)"
    and r: "reachable h e v"
  shows "\<not> hit (props h v)"
proof -
  have "v \<in> set seen \<or> v = current \<or> v = JUndefined"
    using r
  proof induction
    case start
    then show ?case using inv by (auto simp: closed_under_cause_def)
  next
    case (link v)
    then consider "v \<in> set seen" | "v = current" "current \<notin> set seen" | "v = JUndefined"
      by auto
    then show ?case
    proof cases
      case 1
      then show ?thesis using inv by (auto simp: closed_under_cause_def)
    next
      case 2
      then have "\<not> truthy v" using stop by simp
      then have "props h v = absent" by (simp add: falsy_outside fields_outside)
      then show ?thesis by (simp add: absent_def)
    next
      case 3
      then show ?thesis by (simp add: absent_def)
    qed
  qed
  then consider "v \<in> set seen" | "v = current" "current \<notin> set seen" | "v = JUndefined"
    by auto
  then show ?thesis
  proof cases
    case 1
    then show ?thesis using inv by (auto simp: closed_under_cause_def)
  next
    case 2
    then have "\<not> truthy v" using stop by simp
    then have "props h v = absent" by (simp add: falsy_outside fields_outside)
    then show ?thesis by (simp add: absent_no_hit)
  next
    case 3
    then show ?thesis by (simp add: absent_no_hit)
  qed
qed

lemma walk_classifies:
  assumes "closed_under_cause h e seen current"
  shows "\<exists>visited. walk h seen current = Some ((\<exists>v. reachable h e v \<and> hit (props h v)), visited)"
  using assms
proof (induction "budget h seen current" arbitrary: seen current rule: less_induct)
  case less
  show ?case
  proof (cases "truthy current \<and> current \<notin> set seen")
    case False
    then have "walk h seen current = Some (False, seen)"
      by (rule walk_stop)
    moreover have "\<not> (\<exists>v. reachable h e v \<and> hit (props h v))"
      using closed_exit [OF less.prems False] by blast
    ultimately show ?thesis by simp
  next
    case live: True
    show ?thesis
    proof (cases "hit (props h current)")
      case True
      with live have "walk h seen current = Some (True, seen @ [current])"
        by (simp add: walk_hit)
      moreover have "\<exists>v. reachable h e v \<and> hit (props h v)"
        using True less.prems by (auto simp: closed_under_cause_def)
      ultimately show ?thesis by simp
    next
      case nohit: False
      with live have nxt: "walk h seen current = walk h (seen @ [current]) (cause (props h current))"
        by (simp add: walk_next)
      have "budget h (seen @ [current]) (cause (props h current)) < budget h seen current"
        using live by (simp add: budget_step)
      moreover have "closed_under_cause h e (seen @ [current]) (cause (props h current))"
        using less.prems nohit by (rule closed_step)
      ultimately have "\<exists>visited. walk h (seen @ [current]) (cause (props h current))
          = Some ((\<exists>v. reachable h e v \<and> hit (props h v)), visited)"
        by (rule less.hyps)
      then show ?thesis
        by (simp only: nxt)
    qed
  qed
qed

text \<open>
  C9. \<open>isServiceUnavailableError\<close> returns for every heap and every argument, a cyclic chain
  of causes included: the walk comes back with a verdict, no value is examined twice, and
  at most one value more than the heap has objects is examined.
\<close>

theorem classifier_terminates:
  "\<exists>b visited. walk h [] e = Some (b, visited) \<and> isServiceUnavailableError h e = Some b
     \<and> distinct visited \<and> length visited \<le> Suc (length h)"
proof -
  obtain b visited where "walk h [] e = Some (b, visited)" "distinct visited"
      "length visited \<le> Suc (length h)"
    using walk_visits_once [of "[]" h e] by auto
  then show ?thesis
    by (auto simp: isServiceUnavailableError_def)
qed

theorem classifier_terminates_witness:
  "(\<exists>b visited.
      walk [\<lparr>code = JStr ''23505'', message = JStr ''duplicate key'', cause = JRef 1\<rparr>,
            \<lparr>code = JUndefined, message = JUndefined, cause = JRef 0\<rparr>] [] (JRef 0)
        = Some (b, visited)
      \<and> isServiceUnavailableError
          [\<lparr>code = JStr ''23505'', message = JStr ''duplicate key'', cause = JRef 1\<rparr>,
           \<lparr>code = JUndefined, message = JUndefined, cause = JRef 0\<rparr>] (JRef 0) = Some b
      \<and> distinct visited \<and> length visited \<le> Suc 2)
   \<and> walk [\<lparr>code = JStr ''23505'', message = JStr ''duplicate key'', cause = JRef 1\<rparr>,
           \<lparr>code = JUndefined, message = JUndefined, cause = JRef 0\<rparr>] [] (JRef 0)
       = Some (False, [JRef 0, JRef 1])"
proof -
  have "walk [\<lparr>code = JStr ''23505'', message = JStr ''duplicate key'', cause = JRef 1\<rparr>,
              \<lparr>code = JUndefined, message = JUndefined, cause = JRef 0\<rparr>] [] (JRef 0)
          = Some (False, [JRef 0, JRef 1])"
    by code_simp
  then show ?thesis
    using classifier_terminates
      [of "[\<lparr>code = JStr ''23505'', message = JStr ''duplicate key'', cause = JRef 1\<rparr>,
            \<lparr>code = JUndefined, message = JUndefined, cause = JRef 0\<rparr>]" "JRef 0"]
    by simp
qed

text \<open>
  C3, as amended. \<open>isServiceUnavailableError\<close> returns true if and only if some value
  reachable from its argument through the chain of \<open>cause\<close> links has a string \<open>code\<close> of
  \<open>SERVICE_UNAVAILABLE_DB_CODES\<close>, or a string \<open>message\<close> whose lower-cased form contains one
  of \<open>MESSAGE_HINTS\<close>; for every other input it returns false.
\<close>

theorem classifier_iff:
  "isServiceUnavailableError h e =
    Some (\<exists>v. reachable h e v \<and>
            (has_known_code (props h v) \<or> lowercased_message_contains_hint (props h v)))"
  using walk_classifies [OF closed_start, of h e]
  by (auto simp: isServiceUnavailableError_def hit_def)

theorem classifier_iff_witness:
  "isServiceUnavailableError
     [\<lparr>code = JStr ''XX000'', message = JStr ''query failed'', cause = JRef 1\<rparr>,
      \<lparr>code = JStr ''ECONNREFUSED'', message = JUndefined, cause = JUndefined\<rparr>] (JRef 0)
     = Some True
   \<and> (\<exists>v. reachable
            [\<lparr>code = JStr ''XX000'', message = JStr ''query failed'', cause = JRef 1\<rparr>,
             \<lparr>code = JStr ''ECONNREFUSED'', message = JUndefined, cause = JUndefined\<rparr>] (JRef 0) v
          \<and> (has_known_code
               (props [\<lparr>code = JStr ''XX000'', message = JStr ''query failed'', cause = JRef 1\<rparr>,
                        \<lparr>code = JStr ''ECONNREFUSED'', message = JUndefined, cause = JUndefined\<rparr>] v)
             \<or> lowercased_message_contains_hint
               (props [\<lparr>code = JStr ''XX000'', message = JStr ''query failed'', cause = JRef 1\<rparr>,
                        \<lparr>code = JStr ''ECONNREFUSED'', message = JUndefined, cause = JUndefined\<rparr>] v)))"
proof -
  have "isServiceUnavailableError
     [\<lparr>code = JStr ''XX000'', message = JStr ''query failed'', cause = JRef 1\<rparr>,
      \<lparr>code = JStr ''ECONNREFUSED'', message = JUndefined, cause = JUndefined\<rparr>] (JRef 0)
     = Some True"
    by code_simp
  then show ?thesis
    using classifier_iff
      [of "[\<lparr>code = JStr ''XX000'', message = JStr ''query failed'', cause = JRef 1\<rparr>,
            \<lparr>code = JStr ''ECONNREFUSED'', message = JUndefined, cause = JUndefined\<rparr>]" "JRef 0"]
    by simp
qed

text \<open>
  The claim as it was stated fails where the message has the hint in another case: the
  message \<open>Connection Refused\<close> does not contain \<open>connection refused\<close>, no code is set, and
  the classifier answers true.
\<close>

lemma reachable_single:
  "reachable [\<lparr>code = JUndefined, message = JStr ''Connection Refused'', cause = JUndefined\<rparr>]
     (JRef 0) v \<Longrightarrow> v = JRef 0 \<or> v = JUndefined"
  by (induction rule: reachable.induct) (auto simp: absent_def)

theorem classifier_case_counterexample:
  "isServiceUnavailableError
     [\<lparr>code = JUndefined, message = JStr ''Connection Refused'', cause = JUndefined\<rparr>] (JRef 0)
     = Some True
   \<and> \<not> claimed_unavailable
     [\<lparr>code = JUndefined, message = JStr ''Connection Refused'', cause = JUndefined\<rparr>] (JRef 0)"
proof -
  have 1: "isServiceUnavailableError
     [\<lparr>code = JUndefined, message = JStr ''Connection Refused'', cause = JUndefined\<rparr>] (JRef 0)
     = Some True"
    by code_simp
  have 2: "\<not> (has_known_code (props
       [\<lparr>code = JUndefined, message = JStr ''Connection Refused'', cause = JUndefined\<rparr>] (JRef 0))
     \<or> message_contains_hint (props
       [\<lparr>code = JUndefined, message = JStr ''Connection Refused'', cause = JUndefined\<rparr>] (JRef 0)))"
    by code_simp
  have 3: "\<not> (has_known_code (props
       [\<lparr>code = JUndefined, message = JStr ''Connection Refused'', cause = JUndefined\<rparr>] JUndefined)
     \<or> message_contains_hint (props
       [\<lparr>code = JUndefined, message = JStr ''Connection Refused'', cause = JUndefined\<rparr>] JUndefined))"
    by code_simp
  have "\<not> claimed_unavailable
     [\<lparr>code = JUndefined, message = JStr ''Connection Refused'', cause = JUndefined\<rparr>] (JRef 0)"
    unfolding claimed_unavailable_def using reachable_single 2 3 by blast
  with 1 show ?thesis by simp
qed

section \<open>Properties of the cookie token extraction\<close>

lemma split_on_nonempty: "split_on sep s \<noteq> []"
  by (induction s) (auto split: list.splits)

lemma scan_entries_find:
  "scan_entries entries key =
    Inr (case map_option (\<lambda>entry. join_with ''='' (tl (split_on CHR ''='' (trim entry))))
              (find (\<lambda>entry. hd (split_on CHR ''='' (trim entry)) = key) entries) of
           None \<Rightarrow> None
         | Some v \<Rightarrow> if v = [] then None
                     else (case decodeURIComponent v of
                             Inr decoded \<Rightarrow> Some decoded
                           | Inl _ \<Rightarrow> Some v))"
proof (induction entries)
  case Nil
  then show ?case by simp
next
  case (Cons entry entries)
  obtain rawKey valueParts where sp: "split_on CHR ''='' (trim entry) = rawKey # valueParts"
    using split_on_nonempty [of "CHR ''=''" "trim entry"] by (cases "split_on CHR ''='' (trim entry)") auto
  show ?case
  proof (cases "rawKey = key")
    case True
    then show ?thesis
      using sp by (simp add: Let_def split: sum.splits)
  next
    case False
    then show ?thesis
      using sp Cons.IH by simp
  qed
qed

lemma parseCookieHeader_entry:
  "parseCookieHeader header key =
    Inr (case header of
           None \<Rightarrow> None
         | Some h \<Rightarrow>
             (if h = [] then None
              else (case cookie_entry h key of
                      None \<Rightarrow> None
                    | Some v \<Rightarrow> if v = [] then None
                                else (case decodeURIComponent v of
                                        Inr decoded \<Rightarrow> Some decoded
                                      | Inl _ \<Rightarrow> Some v))))"
  by (cases header) (simp_all add: parseCookieHeader_def cookie_entry_def scan_entries_find)

lemma decode_from_grows:
  "decode_from s k R = Inr d \<Longrightarrow> length R \<le> length d \<and> (k < length s \<longrightarrow> length R < length d)"
proof (induction s k R rule: decode_from.induct)
  case (1 s k R)
  show ?case
  proof (cases "k < length s")
    case False
    then show ?thesis using "1.prems" by (subst (asm) decode_from.simps) simp
  next
    case True
    note lt = True
    show ?thesis
    proof (cases "s ! k \<noteq> CHR ''%''")
      case True
      then have "decode_from s (k + 1) (R @ [s ! k]) = Inr d"
        using "1.prems" lt by (subst (asm) decode_from.simps) simp
      from "1.IH"(1) [OF lt True this] show ?thesis by simp
    next
      case False
      note pc = False
      show ?thesis
      proof (cases "k + 3 > length s")
        case True
        then show ?thesis using "1.prems" lt pc by (subst (asm) decode_from.simps) simp
      next
        case False
        note room = False
        show ?thesis
        proof (cases "parseHexOctet s (k + 1)")
          case None
          then show ?thesis using "1.prems" lt pc room by (subst (asm) decode_from.simps) simp
        next
          case (Some B)
          show ?thesis
          proof (cases "leading_ones B = 0")
            case True
            then have "decode_from s (k + 3) (R @ [char_of B]) = Inr d"
              using "1.prems" lt pc room Some by (subst (asm) decode_from.simps) simp
            from "1.IH"(2) [OF lt pc room Some refl True this] show ?thesis by simp
          next
            case False
            note n0 = False
            show ?thesis
            proof (cases "leading_ones B = 1 \<or> leading_ones B > 4")
              case True
              then show ?thesis
                using "1.prems" lt pc room Some n0 by (subst (asm) decode_from.simps) simp
            next
              case False
              note nr = False
              show ?thesis
              proof (cases "continuation_octets s (k + 2) (leading_ones B - 1)")
                case None
                then show ?thesis
                  using "1.prems" lt pc room Some n0 nr by (subst (asm) decode_from.simps) simp
              next
                case (Some bs)
                note oct = Some
                show ?thesis
                proof (cases "valid_utf8 (B # bs)")
                  case False
                  then show ?thesis
                    using "1.prems" lt pc room \<open>parseHexOctet s (k + 1) = Some B\<close> n0 nr oct
                    by (subst (asm) decode_from.simps) simp
                next
                  case True
                  then have "decode_from s (k + 3 * leading_ones B) (R @ map char_of (B # bs)) = Inr d"
                    using "1.prems" lt pc room \<open>parseHexOctet s (k + 1) = Some B\<close> n0 nr oct
                    by (subst (asm) decode_from.simps) simp
                  from "1.IH"(3) [OF lt pc room \<open>parseHexOctet s (k + 1) = Some B\<close> refl n0 nr oct True this]
                  show ?thesis by simp
                qed
              qed
            qed
          qed
        qed
      qed
    qed
  qed
qed

lemma decodeURIComponent_nonempty:
  "decodeURIComponent v = Inr d \<Longrightarrow> v \<noteq> [] \<Longrightarrow> d \<noteq> []"
  using decode_from_grows [of v 0 "[]" d] by (auto simp: decodeURIComponent_def)

lemma parseCookieHeader_never_empty: "parseCookieHeader header key \<noteq> Inr (Some [])"
  by (auto simp: parseCookieHeader_entry decodeURIComponent_nonempty
           split: option.splits sum.splits)

lemma getSid_decorated:
  "getSidFromRequest rq =
    (if decorated_sid rq \<noteq> None \<and> decorated_sid rq \<noteq> Some [] then Inr (decorated_sid rq)
     else parseCookieHeader (case headers_cookie rq of HString h \<Rightarrow> Some h | _ \<Rightarrow> None) ''sid'')"
  by (simp add: getSidFromRequest_def Let_def)

lemma getSid_total: "\<exists>t. getSidFromRequest rq = Inr t"
  by (simp add: getSid_decorated parseCookieHeader_entry)

lemma getSid_never_empty: "getSidFromRequest rq \<noteq> Inr (Some [])"
  by (simp add: getSid_decorated parseCookieHeader_never_empty)

text \<open>
  C7, as amended. Token extraction never throws. \<open>parseCookieHeader\<close> returns null when the
  header is absent or empty, when no entry is named by the key, and when the first such
  entry has an empty value; it returns the percent-decoded value of that entry when the
  value decodes, and the value as it stands, undecoded, when \<open>decodeURIComponent\<close> throws.
  \<open>getSidFromRequest\<close> returns the cookie a plugin has parsed when there is a non-empty one,
  and parses the header otherwise.
\<close>

theorem cookie_extraction_total:
  "(\<exists>t. parseCookieHeader header key = Inr t)
   \<and> (header = None \<or> header = Some [] \<longrightarrow> parseCookieHeader header key = Inr None)
   \<and> (cookie_entry h key = None \<longrightarrow> parseCookieHeader (Some h) key = Inr None)
   \<and> (cookie_entry h key = Some [] \<longrightarrow> parseCookieHeader (Some h) key = Inr None)
   \<and> (h \<noteq> [] \<and> cookie_entry h key = Some v \<and> v \<noteq> [] \<and> decodeURIComponent v = Inr decoded
        \<longrightarrow> parseCookieHeader (Some h) key = Inr (Some decoded))
   \<and> (h \<noteq> [] \<and> cookie_entry h key = Some v \<and> v \<noteq> [] \<and> decodeURIComponent v = Inl e
        \<longrightarrow> parseCookieHeader (Some h) key = Inr (Some v))
   \<and> (\<exists>t. getSidFromRequest rq = Inr t)
   \<and> getSidFromRequest rq =
       (if decorated_sid rq \<noteq> None \<and> decorated_sid rq \<noteq> Some [] then Inr (decorated_sid rq)
        else parseCookieHeader (case headers_cookie rq of HString h \<Rightarrow> Some h | _ \<Rightarrow> None) ''sid'')"
proof -
  have "\<exists>t. parseCookieHeader header key = Inr t"
    by (simp add: parseCookieHeader_entry)
  moreover have "header = None \<or> header = Some [] \<longrightarrow> parseCookieHeader header key = Inr None"
    by (auto simp: parseCookieHeader_entry)
  moreover have "cookie_entry h key = None \<longrightarrow> parseCookieHeader (Some h) key = Inr None"
    by (simp add: parseCookieHeader_entry)
  moreover have "cookie_entry h key = Some [] \<longrightarrow> parseCookieHeader (Some h) key = Inr None"
    by (simp add: parseCookieHeader_entry)
  moreover have "h \<noteq> [] \<and> cookie_entry h key = Some v \<and> v \<noteq> [] \<and> decodeURIComponent v = Inr decoded
        \<longrightarrow> parseCookieHeader (Some h) key = Inr (Some decoded)"
    by (simp add: parseCookieHeader_entry)
  moreover have "h \<noteq> [] \<and> cookie_entry h key = Some v \<and> v \<noteq> [] \<and> decodeURIComponent v = Inl e
        \<longrightarrow> parseCookieHeader (Some h) key = Inr (Some v)"
    by (simp add: parseCookieHeader_entry)
  ultimately show ?thesis
    using getSid_total [of rq] getSid_decorated [of rq] by blast
qed

theorem cookie_extraction_total_witness:
  "parseCookieHeader (Some ''theme=dark; sid=abc%20d=e'') ''sid'' = Inr (Some ''abc d=e'')
   \<and> parseCookieHeader (Some ''theme=dark; sid=%E0%A4%A'') ''sid'' = Inr (Some ''%E0%A4%A'')
   \<and> parseCookieHeader (Some ''theme=dark'') ''sid'' = Inr None"
proof -
  have 1: "''theme=dark; sid=abc%20d=e'' \<noteq> []
      \<and> cookie_entry ''theme=dark; sid=abc%20d=e'' ''sid'' = Some ''abc%20d=e''
      \<and> ''abc%20d=e'' \<noteq> [] \<and> decodeURIComponent ''abc%20d=e'' = Inr ''abc d=e''"
    by code_simp
  have 2: "''theme=dark; sid=%E0%A4%A'' \<noteq> []
      \<and> cookie_entry ''theme=dark; sid=%E0%A4%A'' ''sid'' = Some ''%E0%A4%A''
      \<and> ''%E0%A4%A'' \<noteq> [] \<and> decodeURIComponent ''%E0%A4%A'' = Inl URIError"
    by code_simp
  have 3: "cookie_entry ''theme=dark'' ''sid'' = None"
    by code_simp
  show ?thesis
    using 1 2 3
      cookie_extraction_total [of "Some ''theme=dark; sid=abc%20d=e''" "''sid''"
        "''theme=dark; sid=abc%20d=e''" "''abc%20d=e''" "''abc d=e''" URIError]
      cookie_extraction_total [of "Some ''theme=dark; sid=%E0%A4%A''" "''sid''"
        "''theme=dark; sid=%E0%A4%A''" "''%E0%A4%A''" "[]" URIError]
      cookie_extraction_total [of "Some ''theme=dark''" "''sid''" "''theme=dark''"]
    by blast
qed

text \<open>
  The claim as it was stated fails on a \<open>sid\<close> cookie whose value is not a well-formed
  percent-encoding: \<open>decodeURIComponent\<close> throws, and the extraction returns the raw value,
  not null.
\<close>

theorem malformed_cookie_counterexample:
  "decodeURIComponent ''%zz'' = Inl URIError
   \<and> parseCookieHeader (Some ''sid=%zz'') ''sid'' = Inr (Some ''%zz'')
   \<and> getSidFromRequest (scenario_request ''sid=%zz'') = Inr (Some ''%zz'')"
  by code_simp

section \<open>Properties of the session service\<close>

lemma query_Inr:
  "query ex stmt = Inr (r, ex') \<Longrightarrow>
     healthy ex \<and> r = fst (stmt (db ex)) \<and> db ex' = snd (stmt (db ex)) \<and> faults ex' = tl (faults ex)"
  by (auto simp: query_def healthy_def split: list.splits option.splits prod.splits)

lemma query_healthy:
  "healthy ex \<Longrightarrow>
     query ex stmt = Inr (fst (stmt (db ex)), \<lparr>db = snd (stmt (db ex)), faults = tl (faults ex)\<rparr>)"
  by (auto simp: query_def healthy_def split: list.splits option.splits prod.splits)

lemma query_faulty: "faults ex = Some e # rest \<Longrightarrow> query ex stmt = Inl e"
  by (simp add: query_def)

lemma execute_Inr:
  "execute ex stmt = Inr ex' \<Longrightarrow>
     healthy ex \<and> db ex' = stmt (db ex) \<and> faults ex' = tl (faults ex)"
  unfolding execute_def
  by (cases "query ex (\<lambda>d. ((), stmt d))") (auto dest: query_Inr)

lemma execute_healthy:
  "healthy ex \<Longrightarrow> execute ex stmt = Inr \<lparr>db = stmt (db ex), faults = tl (faults ex)\<rparr>"
  by (simp add: execute_def query_healthy)

lemma execute_faulty: "faults ex = Some e # rest \<Longrightarrow> execute ex stmt = Inl e"
  by (simp add: execute_def query_faulty)

lemma login_unknown_email:
  assumes "findUserByEmail ex addr = Inr (None, ex')"
  shows "loginUser dp ev amb ex rp addr pw
           = Inr (rp\<lparr>statusCode := 401, sent := Some (Some (ErrorBody ''Invalid credentials''))\<rparr>, ex')"
  using assms by (simp add: loginUser_def code_send_def)

lemma login_wrong_password:
  assumes "findUserByEmail ex addr = Inr (Some user, ex')"
    and "\<not> verifyPassword dp pw (password_hash user)"
  shows "loginUser dp ev amb ex rp addr pw
           = Inr (rp\<lparr>statusCode := 401, sent := Some (Some (ErrorBody ''Invalid credentials''))\<rparr>, ex')"
  using assms by (simp add: loginUser_def code_send_def)

text \<open>
  C5. A login with an unknown email and a login with a known email and a wrong password
  answer alike: from the same reply they produce the same reply, with status 401 and the
  body \<open>{error: 'Invalid credentials'}\<close>, and no cookie or header is set.
\<close>

theorem login_failures_indistinguishable:
  assumes "findUserByEmail ex1 addr1 = Inr (None, ex1')"
    and "findUserByEmail ex2 addr2 = Inr (Some user, ex2')"
    and "\<not> verifyPassword dp pw2 (password_hash user)"
  shows "\<exists>r. loginUser dp ev amb1 ex1 rp addr1 pw1 = Inr (r, ex1')
           \<and> loginUser dp ev amb2 ex2 rp addr2 pw2 = Inr (r, ex2')
           \<and> statusCode r = 401
           \<and> sent r = Some (Some (ErrorBody ''Invalid credentials''))
           \<and> cookie_calls r = cookie_calls rp \<and> headers r = headers rp"
  using login_unknown_email [OF assms(1)] login_wrong_password [OF assms(2,3)]
  by simp

theorem login_failures_indistinguishable_witness:
  "\<exists>r. loginUser scenario_deps scenario_env first_login scenario_start scenario_reply
          ''nobody@x.com'' ''p1'' = Inr (r, scenario_start)
     \<and> loginUser scenario_deps scenario_env second_login scenario_start scenario_reply
          ''a@x.com'' ''guess'' = Inr (r, scenario_start)
     \<and> statusCode r = 401
     \<and> sent r = Some (Some (ErrorBody ''Invalid credentials''))
     \<and> cookie_calls r = cookie_calls scenario_reply \<and> headers r = headers scenario_reply"
proof -
  have 1: "findUserByEmail scenario_start ''nobody@x.com'' = Inr (None, scenario_start)"
    by code_simp
  have 2: "findUserByEmail scenario_start ''a@x.com''
      = Inr (Some \<lparr>u_id = ''u1'', u_email = ''a@x.com'', password_hash = ''argon:p1''\<rparr>,
             scenario_start)"
    by code_simp
  have 3: "\<not> verifyPassword scenario_deps ''guess''
      (password_hash \<lparr>u_id = ''u1'', u_email = ''a@x.com'', password_hash = ''argon:p1''\<rparr>)"
    by code_simp
  show ?thesis
    using login_failures_indistinguishable [OF 1 2 3] .
qed

text \<open>
  C6, as amended. When the cookie carries a token and the lookup of its session succeeds,
  \<open>attachAuth\<close> goes on as \<open>touchSession\<close> does: it binds the principal when the touch
  succeeds, and it fails with the error of the touch, binding nothing, when the touch fails.
\<close>

theorem attach_touch_failure_propagates:
  assumes "getSidFromRequest rq = Inr (Some token)"
    and "findSessionByTokenHash ex (sha256 dp token) now = Inr (Some session, ex1)"
  shows "attachAuth dp now ex rq =
          (case touchSession ex1 (session_id session) now of
             Inl e \<Rightarrow> Inl e
           | Inr ex2 \<Rightarrow>
               Inr (rq\<lparr>auth := Some \<lparr>sid = token, sessionId = session_id session,
                      userId = user_id session, principal_email = email session,
                      profileId = profile_id session, expiresAt = expires_at session\<rparr>\<rparr>, ex2))"
  using assms by (simp add: attachAuth_def)

theorem attach_touch_failure_propagates_witness:
  "attachAuth scenario_deps 1000 scenario_start (scenario_request ''sid=t9'')
    = Inr ((scenario_request ''sid=t9'')
             \<lparr>auth := Some \<lparr>sid = ''t9'', sessionId = ''s9'', userId = ''u2'',
                principal_email = ''b@x.com'', profileId = None, expiresAt = 500000\<rparr>\<rparr>,
           \<lparr>db = scenario_tables\<lparr>sessions :=
              [\<lparr>s_id = ''s0'', s_user_id = ''u1'', token_hash = ''sha:t0'',
                s_expires_at = 500000, last_seen_at = None\<rparr>,
               \<lparr>s_id = ''s9'', s_user_id = ''u2'', token_hash = ''sha:t9'',
                s_expires_at = 500000, last_seen_at = Some 1000\<rparr>]\<rparr>,
            faults = []\<rparr>)"
proof -
  have 1: "getSidFromRequest (scenario_request ''sid=t9'') = Inr (Some ''t9'')"
    by code_simp
  have 2: "findSessionByTokenHash scenario_start (sha256 scenario_deps ''t9'') 1000
      = Inr (Some \<lparr>session_id = ''s9'', user_id = ''u2'', email = ''b@x.com'',
                   expires_at = 500000, profile_id = None\<rparr>, scenario_start)"
    by code_simp
  have 3: "touchSession scenario_start ''s9'' 1000
      = Inr \<lparr>db = scenario_tables\<lparr>sessions :=
              [\<lparr>s_id = ''s0'', s_user_id = ''u1'', token_hash = ''sha:t0'',
                s_expires_at = 500000, last_seen_at = None\<rparr>,
               \<lparr>s_id = ''s9'', s_user_id = ''u2'', token_hash = ''sha:t9'',
                s_expires_at = 500000, last_seen_at = Some 1000\<rparr>]\<rparr>,
            faults = []\<rparr>"
    by code_simp
  show ?thesis
    using attach_touch_failure_propagates [OF 1 2] 3 by simp
qed

text \<open>
  The claim as it was stated fails where the lookup succeeds and the touch meets a failure
  of the connection: \<open>attachAuth\<close> does not complete, it fails with that error.
\<close>

theorem touch_failure_counterexample:
  "getSidFromRequest (scenario_request ''sid=t9'') = Inr (Some ''t9'')
   \<and> findSessionByTokenHash scenario_touch_fails (sha256 scenario_deps ''t9'') 1000
       = Inr (Some \<lparr>session_id = ''s9'', user_id = ''u2'', email = ''b@x.com'',
                    expires_at = 500000, profile_id = None\<rparr>,
              \<lparr>db = scenario_tables, faults = [Some (DbError ''57P01'')]\<rparr>)
   \<and> touchSession \<lparr>db = scenario_tables, faults = [Some (DbError ''57P01'')]\<rparr> ''s9'' 1000
       = Inl (DbError ''57P01'')
   \<and> attachAuth scenario_deps 1000 scenario_touch_fails (scenario_request ''sid=t9'')
       = Inl (DbError ''57P01'')"
  by code_simp

text \<open>
  C10. When no plugin supplies a non-empty \<open>sid\<close> and the first \<open>sid\<close> entry of the cookie
  header has an empty value, the extraction returns null, and \<open>attachAuth\<close> leaves the
  request anonymous without sending a statement: the executor comes back as it was, whatever
  failure was waiting for the next statement. No request at all yields the empty string as
  its token.
\<close>

theorem empty_sid_is_anonymous:
  assumes "decorated_sid rq = None \<or> decorated_sid rq = Some []"
    and "headers_cookie rq = HString h"
    and "cookie_entry h ''sid'' = Some []"
  shows "getSidFromRequest rq = Inr None
         \<and> attachAuth dp now ex rq = Inr (rq\<lparr>auth := None\<rparr>, ex)
         \<and> (\<forall>any. getSidFromRequest any \<noteq> Inr (Some []))"
proof -
  have "getSidFromRequest rq = Inr None"
    using assms by (auto simp: getSid_decorated parseCookieHeader_entry)
  then show ?thesis
    using getSid_never_empty by (simp add: attachAuth_def)
qed

theorem empty_sid_is_anonymous_witness:
  "getSidFromRequest \<lparr>cookies = Some [(''theme'', ''dark''), (''sid'', [])],
                       headers_cookie = HString ''theme=dark; sid='', auth = None\<rparr> = Inr None
   \<and> attachAuth scenario_deps 1000 scenario_down
        \<lparr>cookies = Some [(''theme'', ''dark''), (''sid'', [])],
         headers_cookie = HString ''theme=dark; sid='', auth = None\<rparr>
       = Inr (\<lparr>cookies = Some [(''theme'', ''dark''), (''sid'', [])],
               headers_cookie = HString ''theme=dark; sid='', auth = None\<rparr>, scenario_down)"
proof -
  have 1: "decorated_sid \<lparr>cookies = Some [(''theme'', ''dark''), (''sid'', [])],
                          headers_cookie = HString ''theme=dark; sid='', auth = None\<rparr> = None
      \<or> decorated_sid \<lparr>cookies = Some [(''theme'', ''dark''), (''sid'', [])],
                          headers_cookie = HString ''theme=dark; sid='', auth = None\<rparr> = Some []"
    by code_simp
  have 2: "headers_cookie \<lparr>cookies = Some [(''theme'', ''dark''), (''sid'', [])],
                          headers_cookie = HString ''theme=dark; sid='', auth = None\<rparr>
      = HString ''theme=dark; sid=''"
    by simp
  have 3: "cookie_entry ''theme=dark; sid='' ''sid'' = Some []"
    by code_simp
  show ?thesis
    using empty_sid_is_anonymous [OF 1 2 3, of scenario_deps 1000 scenario_down] by simp
qed

lemma logout_no_cookie:
  assumes "getSidFromRequest rq = Inr None"
  shows "logoutUser dp ev ex rq rp
          = Inr (code_send (clearSessionCookie rp (NODE_ENV ev = ''production'')) 204 None, ex)"
  using assms by (simp add: logoutUser_def)

lemma logout_with_cookie:
  assumes "getSidFromRequest rq = Inr (Some token)" "healthy ex"
  shows "logoutUser dp ev ex rq rp
          = Inr (code_send (clearSessionCookie rp (NODE_ENV ev = ''production'')) 204 None,
                 \<lparr>db = (db ex)\<lparr>sessions := filter (\<lambda>s. token_hash s \<noteq> sha256 dp token) (sessions (db ex))\<rparr>,
                  faults = tl (faults ex)\<rparr>)"
  using assms by (simp add: logoutUser_def deleteSessionByTokenHash_def execute_healthy)

lemma cleared_reply:
  "statusCode (code_send (clearSessionCookie rp isProd) 204 None) = 204"
  "sent (code_send (clearSessionCookie rp isProd) 204 None) = Some None"
  "has_clearCookie rp \<Longrightarrow>
     cookie_calls (code_send (clearSessionCookie rp isProd) 204 None)
       = cookie_calls rp @ [ClearCookie ''sid''
           \<lparr>httpOnly = True, sameSite = ''lax'', secure = isProd, path = ''/'', expires = None\<rparr>]"
  "\<not> has_clearCookie rp \<Longrightarrow>
     headers (code_send (clearSessionCookie rp isProd) 204 None)
       = headers rp @ [(''set-cookie'', ''sid=; Path=/; HttpOnly; SameSite=Lax''
           @ (if isProd then ''; Secure'' else []) @ ''; Expires=Thu, 01 Jan 1970 00:00:00 GMT'')]"
  by (simp_all add: code_send_def clearSessionCookie_def)

text \<open>
  C8. Whatever the cookies of the request, \<open>logoutUser\<close> completes when the database takes
  the one statement it may send, and it completes whatever the database does when there is
  no cookie. The reply has status 204 and no body, and clears the cookie (through the plugin
  when there is one, through a \<open>set-cookie\<close> header that expires at the epoch otherwise).
  With a cookie the sessions of its fingerprint are deleted, which changes nothing when
  there is none; without a cookie nothing is sent to the database.
\<close>

theorem logout_never_errors:
  assumes "getSidFromRequest rq = Inr None \<or> healthy ex"
  shows "\<exists>r ex'. logoutUser dp ev ex rq rp = Inr (r, ex')
       \<and> statusCode r = 204 \<and> sent r = Some None
       \<and> (has_clearCookie rp \<longrightarrow>
            cookie_calls r = cookie_calls rp @ [ClearCookie ''sid''
              \<lparr>httpOnly = True, sameSite = ''lax'', secure = (NODE_ENV ev = ''production''),
               path = ''/'', expires = None\<rparr>])
       \<and> (\<not> has_clearCookie rp \<longrightarrow>
            headers r = headers rp @ [(''set-cookie'', ''sid=; Path=/; HttpOnly; SameSite=Lax''
              @ (if NODE_ENV ev = ''production'' then ''; Secure'' else [])
              @ ''; Expires=Thu, 01 Jan 1970 00:00:00 GMT'')])
       \<and> users (db ex') = users (db ex) \<and> profiles (db ex') = profiles (db ex)
       \<and> (\<forall>token. getSidFromRequest rq = Inr (Some token) \<longrightarrow>
            sessions (db ex') = filter (\<lambda>s. token_hash s \<noteq> sha256 dp token) (sessions (db ex)))
       \<and> (\<forall>token. getSidFromRequest rq = Inr (Some token) \<longrightarrow>
            (\<forall>s \<in> set (sessions (db ex)). token_hash s \<noteq> sha256 dp token) \<longrightarrow>
            sessions (db ex') = sessions (db ex))
       \<and> (getSidFromRequest rq = Inr None \<longrightarrow> ex' = ex)"
proof -
  let ?r = "code_send (clearSessionCookie rp (NODE_ENV ev = ''production'')) 204 None"
  obtain t where t: "getSidFromRequest rq = Inr t"
    using getSid_total by blast
  show ?thesis
  proof (cases t)
    case None
    then have "logoutUser dp ev ex rq rp = Inr (?r, ex)"
      using t by (simp add: logout_no_cookie)
    then show ?thesis
      using t None cleared_reply [of rp "NODE_ENV ev = ''production''"] by auto
  next
    case (Some token)
    then have h: "healthy ex"
      using assms t by simp
    let ?ex = "\<lparr>db = (db ex)\<lparr>sessions :=
        filter (\<lambda>s. token_hash s \<noteq> sha256 dp token) (sessions (db ex))\<rparr>, faults = tl (faults ex)\<rparr>"
    have "logoutUser dp ev ex rq rp = Inr (?r, ?ex)"
      using t Some h by (simp add: logout_with_cookie)
    moreover have "(\<forall>s \<in> set (sessions (db ex)). token_hash s \<noteq> sha256 dp token) \<longrightarrow>
        filter (\<lambda>s. token_hash s \<noteq> sha256 dp token) (sessions (db ex)) = sessions (db ex)"
      by (simp add: filter_id_conv)
    ultimately show ?thesis
      using t Some cleared_reply [of rp "NODE_ENV ev = ''production''"] by auto
  qed
qed

theorem logout_never_errors_witness:
  "(\<exists>r ex'. logoutUser scenario_deps scenario_env scenario_down (scenario_request ''theme=dark'')
               scenario_reply = Inr (r, ex')
       \<and> statusCode r = 204 \<and> sent r = Some None
       \<and> cookie_calls r = [ClearCookie ''sid''
            \<lparr>httpOnly = True, sameSite = ''lax'', secure = True, path = ''/'', expires = None\<rparr>]
       \<and> ex' = scenario_down)
   \<and> (\<exists>r ex'. logoutUser scenario_deps scenario_env scenario_start
                 (scenario_request ''theme=dark; sid=t9'') scenario_reply = Inr (r, ex')
       \<and> statusCode r = 204 \<and> sent r = Some None
       \<and> sessions (db ex') = [\<lparr>s_id = ''s0'', s_user_id = ''u1'', token_hash = ''sha:t0'',
                                s_expires_at = 500000, last_seen_at = None\<rparr>])"
proof -
  have 1: "getSidFromRequest (scenario_request ''theme=dark'') = Inr None"
    by code_simp
  have 2: "healthy scenario_start"
    by code_simp
  have 3: "getSidFromRequest (scenario_request ''theme=dark; sid=t9'') = Inr (Some ''t9'')"
    by code_simp
  have 4: "has_clearCookie scenario_reply" "cookie_calls scenario_reply = []"
      "NODE_ENV scenario_env = ''production''"
    by (simp_all add: scenario_reply_def scenario_env_def)
  have 5: "filter (\<lambda>s. token_hash s \<noteq> sha256 scenario_deps ''t9'') (sessions (db scenario_start))
      = [\<lparr>s_id = ''s0'', s_user_id = ''u1'', token_hash = ''sha:t0'',
          s_expires_at = 500000, last_seen_at = None\<rparr>]"
    by (simp add: scenario_start_def scenario_tables_def scenario_deps_def)
  have a: "\<exists>r ex'. logoutUser scenario_deps scenario_env scenario_down (scenario_request ''theme=dark'')
               scenario_reply = Inr (r, ex')
       \<and> statusCode r = 204 \<and> sent r = Some None
       \<and> cookie_calls r = [ClearCookie ''sid''
            \<lparr>httpOnly = True, sameSite = ''lax'', secure = True, path = ''/'', expires = None\<rparr>]
       \<and> ex' = scenario_down"
    using logout_never_errors [of "scenario_request ''theme=dark''" scenario_down scenario_deps
        scenario_env scenario_reply] 1 4
    by auto
  have b: "\<exists>r ex'. logoutUser scenario_deps scenario_env scenario_start
                 (scenario_request ''theme=dark; sid=t9'') scenario_reply = Inr (r, ex')
       \<and> statusCode r = 204 \<and> sent r = Some None
       \<and> sessions (db ex') = [\<lparr>s_id = ''s0'', s_user_id = ''u1'', token_hash = ''sha:t0'',
                                s_expires_at = 500000, last_seen_at = None\<rparr>]"
    using logout_never_errors [of "scenario_request ''theme=dark; sid=t9''" scenario_start
        scenario_deps scenario_env scenario_reply] 2 3 5
    by auto
  from a b show ?thesis by blast
qed

lemma first_row_mem: "first_row rows = Some r \<Longrightarrow> r \<in> set rows"
  by (cases rows) (auto simp: first_row_def)

lemma first_row_nonempty: "rows \<noteq> [] \<Longrightarrow> \<exists>r. first_row rows = Some r"
  by (cases rows) (auto simp: first_row_def)

lemma findUserByEmail_Inr:
  "findUserByEmail ex addr = Inr (u, ex') \<Longrightarrow>
     u = first_row (filter (\<lambda>u. sql_lower (u_email u) = sql_lower addr) (users (db ex)))
     \<and> db ex' = db ex"
  by (auto simp: findUserByEmail_def dest: query_Inr)

lemma findSession_Inr:
  "findSessionByTokenHash ex h now = Inr (r, ex') \<Longrightarrow>
     r = first_row (session_rows (db ex) h now) \<and> db ex' = db ex"
  by (auto simp: findSessionByTokenHash_def dest: query_Inr)

lemma login_success:
  assumes "loginUser dp ev amb ex rp addr pw = Inr (r, ex')"
    and "sent r = Some (Some (UserBody uid e p))"
  shows "\<exists>user. user \<in> set (users (db ex)) \<and> u_id user = uid
           \<and> db ex' = (db ex)\<lparr>sessions :=
                filter (\<lambda>s. s_user_id s \<noteq> uid) (sessions (db ex)) @ [issued_session dp ev amb uid]\<rparr>"
proof -
  obtain found ex1 where f: "findUserByEmail ex addr = Inr (found, ex1)"
    using assms(1) by (cases "findUserByEmail ex addr") (auto simp: loginUser_def)
  obtain user where u: "found = Some user"
    using assms f by (cases found) (auto simp: loginUser_def code_send_def)
  have pw: "verifyPassword dp pw (password_hash user)"
    using assms f u by (auto simp: loginUser_def code_send_def split: if_splits)
  obtain ex2 where d: "deleteSessionsByUserId ex1 (u_id user) = Inr ex2"
    using assms(1) f u pw by (cases "deleteSessionsByUserId ex1 (u_id user)") (auto simp: loginUser_def)
  obtain ex3 where c: "createSession ex2 (generateUuid amb) (u_id user) (sha256 dp (generateToken amb))
        (buildSessionExpiry (js_now amb) (SESSION_DAYS ev)) = Inr ex3"
    using assms(1) f u pw d
    by (cases "createSession ex2 (generateUuid amb) (u_id user) (sha256 dp (generateToken amb))
        (buildSessionExpiry (js_now amb) (SESSION_DAYS ev))") (auto simp: loginUser_def Let_def)
  obtain profile ex4 where s: "findSessionByTokenHash ex3 (sha256 dp (generateToken amb)) (db_now amb)
        = Inr (profile, ex4)"
    using assms(1) f u pw d c
    by (cases "findSessionByTokenHash ex3 (sha256 dp (generateToken amb)) (db_now amb)")
       (auto simp: loginUser_def Let_def)
  have res: "ex' = ex4" "sent r = Some (Some (UserBody (u_id user) (u_email user)
               (case profile of None \<Rightarrow> None | Some p \<Rightarrow> profile_id p)))"
    using assms(1) f u pw d c s by (auto simp: loginUser_def Let_def code_send_def)
  then have uid: "u_id user = uid"
    using assms(2) by simp
  have "user \<in> set (users (db ex))"
    using findUserByEmail_Inr [OF f] u first_row_mem
    by (metis (no_types, lifting) filter_is_subset subsetD)
  moreover have "db ex1 = db ex"
    using findUserByEmail_Inr [OF f] by simp
  moreover have "db ex2 = (db ex1)\<lparr>sessions := filter (\<lambda>s. s_user_id s \<noteq> u_id user) (sessions (db ex1))\<rparr>"
    using d by (auto simp: deleteSessionsByUserId_def dest: execute_Inr)
  moreover have "db ex3 = (db ex2)\<lparr>sessions := sessions (db ex2) @ [issued_session dp ev amb (u_id user)]\<rparr>"
    using c by (auto simp: createSession_def issued_session_def dest: execute_Inr)
  moreover have "db ex4 = db ex3"
    using findSession_Inr [OF s] by simp
  ultimately show ?thesis
    using uid res(1) by auto
qed

lemma session_rows_source:
  "row \<in> set (session_rows d h now) \<Longrightarrow>
     \<exists>s \<in> set (sessions d). token_hash s = h \<and> now < s_expires_at s
        \<and> user_id row = s_user_id s \<and> session_id row = s_id s"
  by (auto simp: session_rows_def)

lemma session_rows_none:
  "\<forall>s \<in> set (sessions d). token_hash s \<noteq> h \<Longrightarrow> session_rows d h now = []"
proof -
  assume "\<forall>s \<in> set (sessions d). token_hash s \<noteq> h"
  then have "filter (\<lambda>s. token_hash s = h \<and> s_expires_at s > now) (sessions d) = []"
    by (auto simp: filter_empty_conv)
  then show ?thesis
    by (simp add: session_rows_def)
qed

lemma profile_refs_nonempty: "profile_refs d u \<noteq> []"
  by (auto simp: profile_refs_def split: list.splits)

lemma session_rows_some:
  assumes "s \<in> set (sessions d)" "token_hash s = h" "now < s_expires_at s"
    and "u \<in> set (users d)" "u_id u = s_user_id s"
  shows "session_rows d h now \<noteq> []"
proof -
  obtain p where p: "p \<in> set (profile_refs d u)"
    using profile_refs_nonempty [of d u] by (cases "profile_refs d u") auto
  have "\<lparr>session_id = s_id s, user_id = s_user_id s, email = u_email u,
         expires_at = s_expires_at s, profile_id = p\<rparr> \<in> set (session_rows d h now)"
    unfolding session_rows_def using assms p by auto
  then show ?thesis by auto
qed

text \<open>
  C1. A successful login leaves the user with exactly one session, the one it has just
  inserted: the sessions stored for the user before are deleted first. After two successful
  logins of the same user in sequence, each with a token whose fingerprint is not yet
  stored, the fingerprint of the first token resolves to no session, at no time, so
  \<open>attachAuth\<close> with the first token leaves the request anonymous; any fingerprint that
  resolves to a session of the user is the fingerprint of the second token; and the second
  token resolves to the second session until it expires.
\<close>

theorem single_live_session:
  assumes L1: "loginUser dp ev amb1 ex0 rp1 addr1 pw1 = Inr (r1, ex1)"
    and ok1: "sent r1 = Some (Some (UserBody uid e1 p1))"
    and L2: "loginUser dp ev amb2 ex1 rp2 addr2 pw2 = Inr (r2, ex2)"
    and ok2: "sent r2 = Some (Some (UserBody uid e2 p2))"
    and fresh1: "sha256 dp (generateToken amb1) \<notin> token_hash ` set (sessions (db ex0))"
    and fresh2: "sha256 dp (generateToken amb2) \<notin> token_hash ` set (sessions (db ex1))"
  shows "filter (\<lambda>s. s_user_id s = uid) (sessions (db ex1)) = [issued_session dp ev amb1 uid]
       \<and> filter (\<lambda>s. s_user_id s = uid) (sessions (db ex2)) = [issued_session dp ev amb2 uid]
       \<and> (\<forall>now row ex'.
             findSessionByTokenHash ex2 (sha256 dp (generateToken amb1)) now \<noteq> Inr (Some row, ex'))
       \<and> (\<forall>now rq. getSidFromRequest rq = Inr (Some (generateToken amb1)) \<longrightarrow> healthy ex2 \<longrightarrow>
             attachAuth dp now ex2 rq = Inr (rq\<lparr>auth := None\<rparr>, \<lparr>db = db ex2, faults = tl (faults ex2)\<rparr>))
       \<and> (\<forall>now h row ex'.
             findSessionByTokenHash ex2 h now = Inr (Some row, ex') \<longrightarrow> user_id row = uid \<longrightarrow>
             h = sha256 dp (generateToken amb2))
       \<and> (\<forall>now. healthy ex2 \<longrightarrow> now < buildSessionExpiry (js_now amb2) (SESSION_DAYS ev) \<longrightarrow>
             (\<exists>row ex'. findSessionByTokenHash ex2 (sha256 dp (generateToken amb2)) now = Inr (Some row, ex')
                \<and> user_id row = uid \<and> session_id row = generateUuid amb2))"
proof -
  let ?h1 = "sha256 dp (generateToken amb1)" and ?h2 = "sha256 dp (generateToken amb2)"
  let ?n1 = "issued_session dp ev amb1 uid" and ?n2 = "issued_session dp ev amb2 uid"
  let ?others = "filter (\<lambda>s. s_user_id s \<noteq> uid) (sessions (db ex0))"
  obtain user where user: "user \<in> set (users (db ex0))" "u_id user = uid"
    and s1: "sessions (db ex1) = ?others @ [?n1]" and u1: "users (db ex1) = users (db ex0)"
    using login_success [OF L1 ok1] by auto
  have d2: "db ex2 = (db ex1)\<lparr>sessions := filter (\<lambda>s. s_user_id s \<noteq> uid) (sessions (db ex1)) @ [?n2]\<rparr>"
    using login_success [OF L2 ok2] by auto
  have n1: "s_user_id ?n1 = uid" "token_hash ?n1 = ?h1"
    and n2: "s_user_id ?n2 = uid" "token_hash ?n2 = ?h2" "s_id ?n2 = generateUuid amb2"
      "s_expires_at ?n2 = buildSessionExpiry (js_now amb2) (SESSION_DAYS ev)"
    by (simp_all add: issued_session_def)
  have s2: "sessions (db ex2) = ?others @ [?n2]"
    using d2 s1 n1 by simp
  have u2: "users (db ex2) = users (db ex0)"
    using d2 u1 by simp
  have a: "filter (\<lambda>s. s_user_id s = uid) (sessions (db ex1)) = [?n1]"
    using s1 n1 by (simp add: filter_empty_conv)
  have b: "filter (\<lambda>s. s_user_id s = uid) (sessions (db ex2)) = [?n2]"
    using s2 n2 by (simp add: filter_empty_conv)
  have h12: "?h2 \<noteq> ?h1"
    using fresh2 s1 n1 by force
  have f1: "token_hash s \<noteq> ?h1" if "s \<in> set (sessions (db ex0))" for s
    using fresh1 that by (metis imageI)
  have f2: "token_hash s \<noteq> ?h2" if "s \<in> set (sessions (db ex1))" for s
    using fresh2 that by (metis imageI)
  have none1: "\<forall>s \<in> set (sessions (db ex2)). token_hash s \<noteq> ?h1"
    using s2 n2 h12 f1 by auto
  have rows1: "session_rows (db ex2) ?h1 now = []" for now
    using none1 by (rule session_rows_none)
  have c: "findSessionByTokenHash ex2 ?h1 now \<noteq> Inr (Some row, ex')" for now row ex'
  proof
    assume "findSessionByTokenHash ex2 ?h1 now = Inr (Some row, ex')"
    from findSession_Inr [OF this] rows1 [of now] show False
      by (simp add: first_row_def)
  qed
  have d: "attachAuth dp now ex2 rq = Inr (rq\<lparr>auth := None\<rparr>, \<lparr>db = db ex2, faults = tl (faults ex2)\<rparr>)"
    if "getSidFromRequest rq = Inr (Some (generateToken amb1))" "healthy ex2" for now rq
    using that rows1 [of now]
    by (simp add: attachAuth_def findSessionByTokenHash_def query_healthy first_row_def)
  have e: "h = ?h2"
    if "findSessionByTokenHash ex2 h now = Inr (Some row, ex')" "user_id row = uid" for now h row ex'
  proof -
    have "row \<in> set (session_rows (db ex2) h now)"
      using findSession_Inr [OF that(1)] by (simp add: first_row_mem)
    then obtain s where "s \<in> set (sessions (db ex2))" "token_hash s = h" "user_id row = s_user_id s"
      using session_rows_source by blast
    then show ?thesis
      using s2 that(2) n2 by auto
  qed
  have f: "\<exists>row ex'. findSessionByTokenHash ex2 ?h2 now = Inr (Some row, ex')
                \<and> user_id row = uid \<and> session_id row = generateUuid amb2"
    if "healthy ex2" "now < buildSessionExpiry (js_now amb2) (SESSION_DAYS ev)" for now
  proof -
    have only: "s = ?n2" if "s \<in> set (sessions (db ex2))" "token_hash s = ?h2" for s
      using that s2 s1 f2 by auto
    have "session_rows (db ex2) ?h2 now \<noteq> []"
      using session_rows_some [of ?n2 "db ex2" ?h2 now user] s2 n2 u2 user that(2) by simp
    then obtain row where row: "first_row (session_rows (db ex2) ?h2 now) = Some row"
      using first_row_nonempty by blast
    then obtain s where "s \<in> set (sessions (db ex2))" "token_hash s = ?h2"
        "user_id row = s_user_id s" "session_id row = s_id s"
      using session_rows_source [OF first_row_mem [OF row]] by blast
    then have "user_id row = uid" "session_id row = generateUuid amb2"
      using only n2 by auto
    then show ?thesis
      using row that(1) by (simp add: findSessionByTokenHash_def query_healthy)
  qed
  from a b c d e f show ?thesis
    by blast
qed

theorem single_live_session_witness:
  "filter (\<lambda>s. s_user_id s = ''u1'') (sessions (db scenario_after_second))
     = [issued_session scenario_deps scenario_env second_login ''u1'']
   \<and> attachAuth scenario_deps 3000 scenario_after_second (scenario_request ''sid=t1'')
       = Inr (scenario_request ''sid=t1'', scenario_after_second)
   \<and> (\<exists>row ex'. findSessionByTokenHash scenario_after_second (sha256 scenario_deps ''t2'') 3000
                   = Inr (Some row, ex')
         \<and> user_id row = ''u1'' \<and> session_id row = ''s2'')"
proof -
  have L1: "loginUser scenario_deps scenario_env first_login scenario_start scenario_reply
      ''A@x.com'' ''p1'' = Inr (scenario_login_reply ''t1'' 604801000, scenario_after_first)"
    by code_simp
  have ok1: "sent (scenario_login_reply ''t1'' 604801000)
      = Some (Some (UserBody ''u1'' ''a@x.com'' (Some ''p1'')))"
    by (simp add: scenario_login_reply_def)
  have L2: "loginUser scenario_deps scenario_env second_login scenario_after_first scenario_reply
      ''a@x.com'' ''p1'' = Inr (scenario_login_reply ''t2'' 604802000, scenario_after_second)"
    by code_simp
  have ok2: "sent (scenario_login_reply ''t2'' 604802000)
      = Some (Some (UserBody ''u1'' ''a@x.com'' (Some ''p1'')))"
    by (simp add: scenario_login_reply_def)
  have fresh1: "sha256 scenario_deps (generateToken first_login)
      \<notin> token_hash ` set (sessions (db scenario_start))"
    by (simp add: scenario_deps_def first_login_def scenario_start_def scenario_tables_def)
  have fresh2: "sha256 scenario_deps (generateToken second_login)
      \<notin> token_hash ` set (sessions (db scenario_after_first))"
    by (simp add: scenario_deps_def second_login_def scenario_after_first_def scenario_tables_def)
  have rq: "getSidFromRequest (scenario_request ''sid=t1'') = Inr (Some (generateToken first_login))"
    by code_simp
  have h: "healthy scenario_after_second"
    by code_simp
  have t: "(3000 :: int) < buildSessionExpiry (js_now second_login) (SESSION_DAYS scenario_env)"
    by code_simp
  have same: "(scenario_request ''sid=t1'')\<lparr>auth := None\<rparr> = scenario_request ''sid=t1''"
      "\<lparr>db = db scenario_after_second, faults = tl (faults scenario_after_second)\<rparr>
        = scenario_after_second"
      "generateToken second_login = ''t2''" "generateUuid second_login = ''s2''"
    by (simp_all add: scenario_request_def scenario_after_second_def second_login_def)
  show ?thesis
    using single_live_session [OF L1 ok1 L2 ok2 fresh1 fresh2] rq h t same
    by metis
qed

section \<open>Properties of the migration runner\<close>

lemma mset_insert_by: "mset (insert_by cmp x xs) = add_mset x (mset xs)"
  by (induction xs) auto

lemma mset_sort_by: "mset (sort_by cmp xs) = mset xs"
  unfolding sort_by_def by (induction xs) (auto simp: mset_insert_by)

lemma set_insert_by: "set (insert_by cmp x xs) = insert x (set xs)"
  by (induction xs) auto

lemma ordered_insert_by:
  assumes "consistent_comparator cmp" "ordered_by cmp xs"
  shows "ordered_by cmp (insert_by cmp x xs)"
  using assms(2)
proof (induction xs)
  case Nil
  then show ?case by (simp add: ordered_by_def)
next
  case (Cons y ys)
  have total: "cmp a b \<le> 0 \<or> cmp b a \<le> 0" for a b
    using assms(1) by (auto simp: consistent_comparator_def)
  have trans: "cmp a b \<le> 0 \<Longrightarrow> cmp b c \<le> 0 \<Longrightarrow> cmp a c \<le> 0" for a b c
    using assms(1) unfolding consistent_comparator_def by blast
  show ?case
  proof (cases "cmp x y \<le> 0")
    case True
    then have "\<forall>z \<in> set ys. cmp x z \<le> 0"
      using Cons.prems trans by (auto simp: ordered_by_def)
    then show ?thesis
      using True Cons.prems by (simp add: ordered_by_def)
  next
    case False
    then have "cmp y x \<le> 0"
      using total [of x y] by simp
    moreover have "ordered_by cmp (insert_by cmp x ys)"
      using Cons by (simp add: ordered_by_def)
    ultimately show ?thesis
      using False Cons.prems by (auto simp: ordered_by_def set_insert_by)
  qed
qed

lemma ordered_sort_by: "consistent_comparator cmp \<Longrightarrow> ordered_by cmp (sort_by cmp xs)"
  unfolding sort_by_def
  by (induction xs) (simp_all add: ordered_by_def [of cmp "[]"] ordered_insert_by)

lemma distinct_sort_by: "distinct (sort_by cmp xs) = distinct xs"
  by (metis mset_sort_by mset_eq_imp_distinct_iff)

lemma distinct_migration_files:
  "distinct (map fst dir) \<Longrightarrow> distinct (migration_files cmp dir)"
  by (simp add: migration_files_def distinct_sort_by)

lemma migration_files_listed:
  "f \<in> set (migration_files cmp dir) \<Longrightarrow> f \<in> fst ` set dir"
proof -
  assume "f \<in> set (migration_files cmp dir)"
  then have "f \<in># mset (migration_files cmp dir)" by simp
  then have "f \<in># mset (filter (\<lambda>name. endsWith name ''.sql'') (map fst dir))"
    by (simp only: migration_files_def mset_sort_by)
  then show ?thesis by auto
qed

lemma ordered_filter: "ordered_by cmp xs \<Longrightarrow> ordered_by cmp (filter P xs)"
  by (simp add: ordered_by_def sorted_wrt_filter)

lemma apply_files_result:
  assumes "apply_files run dir files c = Inr c'" "ledger c = Some L" "distinct files"
  shows "ledger c' = Some (L @ filter (\<lambda>f. f \<notin> set L) files)
         \<and> applied c' = applied c @ filter (\<lambda>f. f \<notin> set L) files"
  using assms
proof (induction files arbitrary: c L)
  case Nil
  then show ?case by simp
next
  case (Cons f files)
  show ?case
  proof (cases "f \<in> set L")
    case True
    then have "apply_files run dir files c = Inr c'"
      using Cons.prems by simp
    from Cons.IH [OF this] Cons.prems True show ?thesis by simp
  next
    case False
    obtain sql where sql: "map_of dir f = Some sql"
      using Cons.prems False by (cases "map_of dir f") auto
    obtain s where s: "run sql (schema c) = Inr s"
      using Cons.prems False sql by (cases "run sql (schema c)") auto
    let ?c1 = "\<lparr>ledger = Some (L @ [f]), schema = s, applied = applied c @ [f]\<rparr>"
    have "apply_files run dir files ?c1 = Inr c'"
      using Cons.prems False sql s by (simp add: insert_ledger_def)
    moreover have "ledger ?c1 = Some (L @ [f])" by simp
    moreover have "distinct files" using Cons.prems by simp
    ultimately have "ledger c' = Some ((L @ [f]) @ filter (\<lambda>g. g \<notin> set (L @ [f])) files)
         \<and> applied c' = applied ?c1 @ filter (\<lambda>g. g \<notin> set (L @ [f])) files"
      by (rule Cons.IH)
    moreover have "filter (\<lambda>g. g \<notin> set (L @ [f])) files = filter (\<lambda>g. g \<notin> set L) files"
      using Cons.prems by (auto intro: filter_cong)
    ultimately show ?thesis
      using False by simp
  qed
qed

lemma apply_files_skip:
  "ledger c = Some L \<Longrightarrow> set files \<subseteq> set L \<Longrightarrow> apply_files run dir files c = Inr c"
  by (induction files) auto

lemma count_list_distinct: "distinct xs \<Longrightarrow> count_list xs x = (if x \<in> set xs then 1 else 0)"
  by (induction xs) auto

lemma runMigrations_result:
  assumes "distinct (map fst dir)" "runMigrations cmp run dir c0 = Inr c1"
  shows "ledger c1 = Some (ledger_rows c0 @
            filter (\<lambda>f. f \<notin> set (ledger_rows c0)) (migration_files cmp dir))"
    and "applied c1 = applied c0 @
            filter (\<lambda>f. f \<notin> set (ledger_rows c0)) (migration_files cmp dir)"
proof -
  let ?c = "c0\<lparr>ledger := Some (case ledger c0 of None \<Rightarrow> [] | Some rows \<Rightarrow> rows)\<rparr>"
  have 1: "apply_files run dir (migration_files cmp dir) ?c = Inr c1"
    using assms(2) by (simp add: runMigrations_def)
  have 2: "ledger ?c = Some (ledger_rows c0)"
    by (simp add: ledger_rows_def)
  have 3: "distinct (migration_files cmp dir)"
    using assms(1) by (rule distinct_migration_files)
  from apply_files_result [OF 1 2 3]
  show "ledger c1 = Some (ledger_rows c0 @
            filter (\<lambda>f. f \<notin> set (ledger_rows c0)) (migration_files cmp dir))"
    and "applied c1 = applied c0 @
            filter (\<lambda>f. f \<notin> set (ledger_rows c0)) (migration_files cmp dir)"
    by simp_all
qed

lemma runMigrations_again:
  assumes "distinct (map fst dir)" "runMigrations cmp run dir c0 = Inr c1"
  shows "runMigrations cmp run dir c1 = Inr c1"
proof -
  have l: "ledger c1 = Some (ledger_rows c0 @
            filter (\<lambda>f. f \<notin> set (ledger_rows c0)) (migration_files cmp dir))"
    using assms by (rule runMigrations_result)
  then have same: "c1\<lparr>ledger := Some (case ledger c1 of None \<Rightarrow> [] | Some rows \<Rightarrow> rows)\<rparr> = c1"
    by simp
  have "set (migration_files cmp dir) \<subseteq> set (ledger_rows c0 @
            filter (\<lambda>f. f \<notin> set (ledger_rows c0)) (migration_files cmp dir))"
    by auto
  with l have "apply_files run dir (migration_files cmp dir) c1 = Inr c1"
    by (rule apply_files_skip)
  then show ?thesis
    by (simp add: runMigrations_def same)
qed

lemma localeCompare_en_consistent: "consistent_comparator localeCompare_en"
  unfolding consistent_comparator_def localeCompare_en_def
  by (auto split: if_splits)

lemma apply_files_batches:
  assumes "apply_files run dir files c = Inr c'" "ledger c = Some L" "distinct files"
  shows "\<exists>sqls. map (map_of dir) (filter (\<lambda>f. f \<notin> set L) files) = map Some sqls
           \<and> run_batches run sqls (schema c) = Inr (schema c')"
  using assms
proof (induction files arbitrary: c L)
  case Nil
  then show ?case by simp
next
  case (Cons f files)
  show ?case
  proof (cases "f \<in> set L")
    case True
    then have "apply_files run dir files c = Inr c'"
      using Cons.prems by simp
    from Cons.IH [OF this] Cons.prems True show ?thesis by simp
  next
    case False
    obtain sql where sql: "map_of dir f = Some sql"
      using Cons.prems False by (cases "map_of dir f") auto
    obtain s where s: "run sql (schema c) = Inr s"
      using Cons.prems False sql by (cases "run sql (schema c)") auto
    let ?c1 = "\<lparr>ledger = Some (L @ [f]), schema = s, applied = applied c @ [f]\<rparr>"
    have "apply_files run dir files ?c1 = Inr c'"
      using Cons.prems False sql s by (simp add: insert_ledger_def)
    moreover have "ledger ?c1 = Some (L @ [f])" by simp
    moreover have "distinct files" using Cons.prems by simp
    ultimately obtain sqls where
      "map (map_of dir) (filter (\<lambda>g. g \<notin> set (L @ [f])) files) = map Some sqls"
      "run_batches run sqls (schema ?c1) = Inr (schema c')"
      using Cons.IH by blast
    moreover have "filter (\<lambda>g. g \<notin> set (L @ [f])) files = filter (\<lambda>g. g \<notin> set L) files"
      using Cons.prems by (auto intro: filter_cong)
    ultimately have "map (map_of dir) (filter (\<lambda>g. g \<notin> set L) (f # files)) = map Some (sql # sqls)"
      "run_batches run (sql # sqls) (schema c) = Inr (schema c')"
      using False sql s by simp_all
    then show ?thesis by blast
  qed
qed

lemma runMigrations_batches:
  assumes "distinct (map fst dir)" "runMigrations cmp run dir c0 = Inr c1"
  shows "\<exists>sqls. map (map_of dir)
                  (filter (\<lambda>f. f \<notin> set (ledger_rows c0)) (migration_files cmp dir)) = map Some sqls
           \<and> run_batches run sqls (schema c0) = Inr (schema c1)"
proof -
  let ?c = "c0\<lparr>ledger := Some (case ledger c0 of None \<Rightarrow> [] | Some rows \<Rightarrow> rows)\<rparr>"
  have 1: "apply_files run dir (migration_files cmp dir) ?c = Inr c1"
    using assms(2) by (simp add: runMigrations_def)
  have 2: "ledger ?c = Some (ledger_rows c0)"
    by (simp add: ledger_rows_def)
  have 3: "distinct (migration_files cmp dir)"
    using assms(1) by (rule distinct_migration_files)
  from apply_files_batches [OF 1 2 3] show ?thesis
    by simp
qed

text \<open>
  C2. For a directory (its file names are distinct) and a ledger with one row per name, a
  run of the runner that completes executes the batch of every migration file that is not
  in the ledger, once, and records it; a file that is in the ledger is skipped. A second
  run then completes too and changes nothing: after the two runs the ledger holds exactly
  one row per migration file, and each batch has run once if the file was not recorded
  before and not at all if it was.
\<close>

theorem migrations_idempotent:
  assumes "distinct (map fst dir)" "distinct (ledger_rows c0)"
    and "runMigrations localeCompare run dir c0 = Inr c1"
  shows "runMigrations localeCompare run dir c1 = Inr c1
       \<and> (\<forall>f \<in> set (migration_files localeCompare dir).
            count_list (ledger_rows c1) f = 1
            \<and> count_list (drop (length (applied c0)) (applied c1)) f
                = (if f \<in> set (ledger_rows c0) then 0 else 1))"
proof -
  let ?new = "filter (\<lambda>f. f \<notin> set (ledger_rows c0)) (migration_files localeCompare dir)"
  have l: "ledger_rows c1 = ledger_rows c0 @ ?new"
    using runMigrations_result(1) [OF assms(1,3)] by (simp add: ledger_rows_def)
  have a: "drop (length (applied c0)) (applied c1) = ?new"
    using runMigrations_result(2) [OF assms(1,3)] by simp
  have d: "distinct (migration_files localeCompare dir)"
    using assms(1) by (rule distinct_migration_files)
  then have dn: "distinct ?new" by simp
  have dl: "distinct (ledger_rows c0 @ ?new)"
    using assms(2) dn by auto
  have "count_list (ledger_rows c1) f = 1
        \<and> count_list (drop (length (applied c0)) (applied c1)) f
            = (if f \<in> set (ledger_rows c0) then 0 else 1)"
    if "f \<in> set (migration_files localeCompare dir)" for f
  proof -
    have "count_list (ledger_rows c1) f = (if f \<in> set (ledger_rows c0 @ ?new) then 1 else 0)"
      by (simp only: l count_list_distinct [OF dl])
    moreover have "count_list (drop (length (applied c0)) (applied c1)) f
        = (if f \<in> set ?new then 1 else 0)"
      by (simp only: a count_list_distinct [OF dn])
    ultimately show ?thesis
      using that by auto
  qed
  then show ?thesis
    using runMigrations_again [OF assms(1,3)] by blast
qed

theorem migrations_idempotent_witness:
  "runMigrations compare_lex scenario_run scenario_dir scenario_fresh = Inr scenario_migrated
   \<and> runMigrations compare_lex scenario_run scenario_dir scenario_migrated = Inr scenario_migrated
   \<and> count_list (ledger_rows scenario_migrated) ''001_a.sql'' = 1
   \<and> count_list (ledger_rows scenario_migrated) ''002_b.sql'' = 1
   \<and> count_list (applied scenario_migrated) ''001_a.sql'' = 1
   \<and> count_list (applied scenario_migrated) ''002_b.sql'' = 1
   \<and> length (ledger_rows scenario_migrated) = 2"
proof -
  have 1: "distinct (map fst scenario_dir)"
    by code_simp
  have 2: "distinct (ledger_rows scenario_fresh)"
    by code_simp
  have 3: "runMigrations compare_lex scenario_run scenario_dir scenario_fresh = Inr scenario_migrated"
    by code_simp
  have files: "migration_files compare_lex scenario_dir = [''001_a.sql'', ''002_b.sql'']"
    by code_simp
  have 5: "ledger_rows scenario_fresh = []" "applied scenario_fresh = []"
      "length (ledger_rows scenario_migrated) = 2"
    by (simp_all add: ledger_rows_def scenario_fresh_def scenario_migrated_def)
  note T = migrations_idempotent [OF 1 2 3]
  from T have again: "runMigrations compare_lex scenario_run scenario_dir scenario_migrated
      = Inr scenario_migrated"
    by (rule conjunct1)
  from T have each: "\<forall>f \<in> set [''001_a.sql'', ''002_b.sql''].
      count_list (ledger_rows scenario_migrated) f = 1
      \<and> count_list (drop (length (applied scenario_fresh)) (applied scenario_migrated)) f
          = (if f \<in> set (ledger_rows scenario_fresh) then 0 else 1)"
    unfolding files by (rule conjunct2)
  then have "count_list (ledger_rows scenario_migrated) ''001_a.sql'' = 1"
      "count_list (ledger_rows scenario_migrated) ''002_b.sql'' = 1"
      "count_list (applied scenario_migrated) ''001_a.sql'' = 1"
      "count_list (applied scenario_migrated) ''002_b.sql'' = 1"
    by (simp_all add: 5)
  with 3 again 5(3) show ?thesis
    by simp
qed

text \<open>
  C4, as amended. The runner takes the names of the directory that end in \<open>.sql\<close> and sorts
  them with \<open>localeCompare\<close>: by the collation of the locale, not by the codes of the
  characters. Whatever the comparator, as long as it is total and transitive, as \<open>sort\<close>
  requires, the sorted list is in ascending order of it and holds exactly those names, and
  this order is the order of application: a run that completes executes the batches of the
  files that are not in the ledger one after the other in this order, and records them in
  this order. The collation \<open>localeCompare_en\<close> is such a comparator.
\<close>

theorem migrations_in_sorted_order:
  assumes "consistent_comparator localeCompare" "distinct (map fst dir)"
    and "runMigrations localeCompare run dir c0 = Inr c1"
  shows "ordered_by localeCompare (migration_files localeCompare dir)
       \<and> mset (migration_files localeCompare dir)
           = mset (filter (\<lambda>name. endsWith name ''.sql'') (map fst dir))
       \<and> applied c1 = applied c0 @
           filter (\<lambda>f. f \<notin> set (ledger_rows c0)) (migration_files localeCompare dir)
       \<and> ordered_by localeCompare (drop (length (applied c0)) (applied c1))
       \<and> (\<exists>sqls. map (map_of dir)
                  (filter (\<lambda>f. f \<notin> set (ledger_rows c0)) (migration_files localeCompare dir))
                = map Some sqls
              \<and> run_batches run sqls (schema c0) = Inr (schema c1))
       \<and> consistent_comparator localeCompare_en"
proof -
  have o: "ordered_by localeCompare (migration_files localeCompare dir)"
    using assms(1) by (simp add: migration_files_def ordered_sort_by)
  have a: "applied c1 = applied c0 @
           filter (\<lambda>f. f \<notin> set (ledger_rows c0)) (migration_files localeCompare dir)"
    using assms(2,3) by (rule runMigrations_result)
  then have "drop (length (applied c0)) (applied c1)
      = filter (\<lambda>f. f \<notin> set (ledger_rows c0)) (migration_files localeCompare dir)"
    by simp
  then have d: "ordered_by localeCompare (drop (length (applied c0)) (applied c1))"
    using o by (simp add: ordered_filter)
  have m: "mset (migration_files localeCompare dir)
           = mset (filter (\<lambda>name. endsWith name ''.sql'') (map fst dir))"
    by (simp add: migration_files_def mset_sort_by)
  from o m a d runMigrations_batches [OF assms(2,3)] localeCompare_en_consistent show ?thesis
    by (intro conjI)
qed

theorem migrations_in_sorted_order_witness:
  "ordered_by localeCompare_en (migration_files localeCompare_en scenario_mixed)
   \<and> migration_files localeCompare_en scenario_mixed
       = [''001_a.sql'', ''0011_c.sql'', ''a.sql'', ''B.sql'']
   \<and> applied scenario_mixed_migrated = [''001_a.sql'', ''0011_c.sql'', ''a.sql'', ''B.sql'']
   \<and> run_batches scenario_run
         [''CREATE TABLE a ()'', ''CREATE TABLE c ()'', ''CREATE TABLE a2 ()'', ''CREATE TABLE b2 ()'']
         (schema scenario_fresh) = Inr (schema scenario_mixed_migrated)
   \<and> schema scenario_mixed_migrated
       = [''CREATE TABLE a ()'', ''CREATE TABLE c ()'', ''CREATE TABLE a2 ()'', ''CREATE TABLE b2 ()'']"
proof -
  have 1: "distinct (map fst scenario_mixed)"
    by code_simp
  have 2: "runMigrations localeCompare_en scenario_run scenario_mixed scenario_fresh
      = Inr scenario_mixed_migrated"
    by code_simp
  have 3: "migration_files localeCompare_en scenario_mixed
      = [''001_a.sql'', ''0011_c.sql'', ''a.sql'', ''B.sql'']"
    by code_simp
  have 4: "ledger_rows scenario_fresh = []"
      "applied scenario_mixed_migrated = [''001_a.sql'', ''0011_c.sql'', ''a.sql'', ''B.sql'']"
      "schema scenario_mixed_migrated
        = [''CREATE TABLE a ()'', ''CREATE TABLE c ()'', ''CREATE TABLE a2 ()'', ''CREATE TABLE b2 ()'']"
    by (simp_all add: ledger_rows_def scenario_fresh_def scenario_mixed_migrated_def)
  have 5: "map (map_of scenario_mixed) [''001_a.sql'', ''0011_c.sql'', ''a.sql'', ''B.sql'']
      = map Some [''CREATE TABLE a ()'', ''CREATE TABLE c ()'', ''CREATE TABLE a2 ()'',
                  ''CREATE TABLE b2 ()'']"
    by code_simp
  note T = migrations_in_sorted_order [OF localeCompare_en_consistent 1 2]
  from T have a: "ordered_by localeCompare_en (migration_files localeCompare_en scenario_mixed)"
    by (rule conjunct1)
  from T obtain sqls where
    m: "map (map_of scenario_mixed)
          (filter (\<lambda>f. f \<notin> set (ledger_rows scenario_fresh))
             (migration_files localeCompare_en scenario_mixed)) = map Some sqls"
    and r: "run_batches scenario_run sqls (schema scenario_fresh) = Inr (schema scenario_mixed_migrated)"
    by blast
  have "filter (\<lambda>f. f \<notin> set (ledger_rows scenario_fresh))
          (migration_files localeCompare_en scenario_mixed)
      = [''001_a.sql'', ''0011_c.sql'', ''a.sql'', ''B.sql'']"
    by (simp add: 3 4(1))
  with m 5 have "map Some sqls = map Some [''CREATE TABLE a ()'', ''CREATE TABLE c ()'',
      ''CREATE TABLE a2 ()'', ''CREATE TABLE b2 ()'']"
    by (simp only:)
  then have "sqls = [''CREATE TABLE a ()'', ''CREATE TABLE c ()'', ''CREATE TABLE a2 ()'',
      ''CREATE TABLE b2 ()'']"
    by (simp only: inj_map_eq_map [OF inj_Some])
  with r a 3 4 show ?thesis
    by simp
qed

text \<open>
  The claim as it was stated fails where the collation of the locale is not the order of the
  character codes. Under the default collation \<open>001_a.sql\<close> comes before \<open>0011_c.sql\<close> (the
  low line before the digits) and \<open>a.sql\<close> before \<open>B.sql\<close> (letters without regard to case):
  the runner applies the files in that order, which is not the lexicographic one.
\<close>

theorem locale_order_counterexample:
  "migration_files localeCompare_en scenario_mixed
     = [''001_a.sql'', ''0011_c.sql'', ''a.sql'', ''B.sql'']
   \<and> runMigrations localeCompare_en scenario_run scenario_mixed scenario_fresh
       = Inr scenario_mixed_migrated
   \<and> \<not> ordered_by compare_lex (migration_files localeCompare_en scenario_mixed)
   \<and> sort_by compare_lex (filter (\<lambda>name. endsWith name ''.sql'') (map fst scenario_mixed))
       = [''0011_c.sql'', ''001_a.sql'', ''B.sql'', ''a.sql'']"
  by code_simp

end
